theory Spec2Isabelle
  imports Complex_Main
begin

section \<open>Exceptions and the retrying request executor\<close>

text \<open>
  The worker distinguishes two families of Python exceptions: those derived from
  \<^verbatim>\<open>requests.exceptions.RequestException\<close> (transport errors and the \<^verbatim>\<open>HTTPError\<close> that
  \<^verbatim>\<open>raise_for_status\<close> raises), which the executor catches, and every other exception,
  which it lets through. The string is the exception's own description.
\<close>

datatype exn = RequestException string | OtherException string

text \<open>
  One attempt of \<^verbatim>\<open>requests.request(...)\<close> followed by \<^verbatim>\<open>raise_for_status()\<close>: it
  returns a response or raises. The network is the environment, so an outbound call is a
  function from the attempt index to what that attempt does.
\<close>

datatype 'r outcome = Returns 'r | RaisesRequest string | RaisesOther string

record 'r reply =
  result :: "exn + 'r"
  attempts :: nat
  sleeps :: "nat list"

text \<open>
  \<^verbatim>\<open>spotify_request_with_retries\<close> (streams_service.py, lines 72-89). The loop runs over
  \<^verbatim>\<open>range(3)\<close>; a request exception on attempt 0 or 1 is logged and followed by a sleep
  of \<^verbatim>\<open>2 ** attempt\<close> seconds, on attempt 2 it is re-raised. The first equation is the
  statement after the loop (line 89).
\<close>

fun request_attempts :: "string \<Rightarrow> (nat \<Rightarrow> 'r outcome) \<Rightarrow> nat list \<Rightarrow> nat \<Rightarrow> nat list \<Rightarrow> 'r reply" where
  "request_attempts url call [] n sl =
     \<lparr>result = Inl (RequestException (''All retry attempts to '' @ url @ '' failed'')),
      attempts = n, sleeps = sl\<rparr>"
| "request_attempts url call (attempt # rest) n sl =
     (case call attempt of
        Returns r \<Rightarrow> \<lparr>result = Inr r, attempts = Suc n, sleeps = sl\<rparr>
      | RaisesRequest e \<Rightarrow>
          (if attempt < 2 then request_attempts url call rest (Suc n) (sl @ [2 ^ attempt])
           else \<lparr>result = Inl (RequestException e), attempts = Suc n, sleeps = sl\<rparr>)
      | RaisesOther e \<Rightarrow> \<lparr>result = Inl (OtherException e), attempts = Suc n, sleeps = sl\<rparr>)"

definition spotify_request_with_retries :: "string \<Rightarrow> (nat \<Rightarrow> 'r outcome) \<Rightarrow> 'r reply" where
  "spotify_request_with_retries url call = request_attempts url call [0, 1, 2] 0 []"

section \<open>Strings\<close>

text \<open>
  Strings are lists of 8-bit characters. \<^verbatim>\<open>str.upper\<close> and \<^verbatim>\<open>str.lower\<close> are
  modelled on the ASCII letters; other characters are left as they are.
\<close>

definition upper_char :: "char \<Rightarrow> char" where
  "upper_char c = (let n = (of_char c :: nat) in if 97 \<le> n \<and> n \<le> 122 then char_of (n - 32) else c)"

definition lower_char :: "char \<Rightarrow> char" where
  "lower_char c = (let n = (of_char c :: nat) in if 65 \<le> n \<and> n \<le> 90 then char_of (n + 32) else c)"

definition upper :: "string \<Rightarrow> string" where
  "upper s = map upper_char s"

definition lower :: "string \<Rightarrow> string" where
  "lower s = map lower_char s"

text \<open>
  The exceptions that Python's built-in operations raise in the worker, named by their
  class. None of them derives from \<^verbatim>\<open>RequestException\<close>.
\<close>

definition AttributeError :: exn where
  "AttributeError = OtherException ''AttributeError''"

definition TypeError :: exn where
  "TypeError = OtherException ''TypeError''"

definition ValueError :: exn where
  "ValueError = OtherException ''ValueError''"

text \<open>
  \<^verbatim>\<open>str.isdigit\<close> and \<^verbatim>\<open>int\<close> on a text, a character being read as its code point
  (below 256). There \<^verbatim>\<open>str.isdigit\<close> accepts the ten decimal digits and the three
  superscript digits (code points 178, 179 and 185), and a text when it is not empty and
  made of them. \<^verbatim>\<open>int\<close> converts a text of decimal digits and raises
  \<^verbatim>\<open>ValueError\<close> on a superscript digit; it also raises it on a text of more than 4300
  digits, the default of \<^verbatim>\<open>sys.int_max_str_digits\<close> (CPython 3.11, and the security
  releases of 3.7 to 3.10). \<open>int_of_text\<close> is \<^verbatim>\<open>int\<close> on the texts that
  \<^verbatim>\<open>str.isdigit\<close> accepts; the worker converts no other text.
\<close>

definition digit_char :: "char \<Rightarrow> bool" where
  "digit_char c = (let n = (of_char c :: nat) in 48 \<le> n \<and> n \<le> 57)"

definition superscript_char :: "char \<Rightarrow> bool" where
  "superscript_char c = (let n = (of_char c :: nat) in n = 178 \<or> n = 179 \<or> n = 185)"

definition isdigit :: "string \<Rightarrow> bool" where
  "isdigit s = (s \<noteq> [] \<and> list_all (\<lambda>c. digit_char c \<or> superscript_char c) s)"

definition int_of_digits :: "string \<Rightarrow> int" where
  "int_of_digits s = foldl (\<lambda>acc c. 10 * acc + (int (of_char c) - 48)) 0 s"

definition int_max_str_digits :: nat where
  "int_max_str_digits = 4300"

definition int_of_text :: "string \<Rightarrow> exn + int" where
  "int_of_text s =
     (if s \<noteq> [] \<and> list_all digit_char s \<and> length s \<le> int_max_str_digits
      then Inr (int_of_digits s) else Inl ValueError)"

text \<open>Python truthiness of an optional string: \<^verbatim>\<open>None\<close> and the empty string are false.\<close>

definition truthy :: "string option \<Rightarrow> bool" where
  "truthy v = (case v of None \<Rightarrow> False | Some s \<Rightarrow> s \<noteq> [])"

section \<open>Track resolver\<close>

text \<open>
  One entry of \<^verbatim>\<open>tracks.items\<close> in the search response, with the keys
  \<^verbatim>\<open>search_track\<close> reads. A field is \<^verbatim>\<open>None\<close> when the key is absent:
  \<^verbatim>\<open>external_ids.isrc\<close>, \<^verbatim>\<open>id\<close>, \<^verbatim>\<open>album.id\<close>, \<^verbatim>\<open>name\<close> and the
  \<^verbatim>\<open>name\<close> of each entry of \<^verbatim>\<open>artists\<close>.
\<close>

record candidate =
  external_isrc :: "string option"
  track_id :: "string option"
  album_id :: "string option"
  track_name :: "string option"
  artist_names :: "string option list"

definition SPOTIFY_SEARCH_URL :: string where
  "SPOTIFY_SEARCH_URL = ''https://api.spotify.com/v1/search''"

text \<open>\<^verbatim>\<open>t.get("external_ids", {}).get("isrc", "").upper() == isrc.upper()\<close>\<close>

definition isrc_matches :: "string \<Rightarrow> candidate \<Rightarrow> bool" where
  "isrc_matches isrc t =
     (upper (case external_isrc t of None \<Rightarrow> [] | Some s \<Rightarrow> s) = upper isrc)"

text \<open>\<^verbatim>\<open>" & ".join(artists) if artists else None\<close> over the artists that have a name.\<close>

fun join_amp :: "string list \<Rightarrow> string" where
  "join_amp [] = []"
| "join_amp [a] = a"
| "join_amp (a # b # rest) = a @ '' & '' @ join_amp (b # rest)"

definition artists_joined :: "candidate \<Rightarrow> string option" where
  "artists_joined best =
     (let artists = map (\<lambda>a. case a of None \<Rightarrow> [] | Some s \<Rightarrow> s) (filter truthy (artist_names best))
      in if artists = [] then None else Some (join_amp artists))"

type_synonym track_info = "string \<times> string \<times> string option \<times> string option"

text \<open>
  \<^verbatim>\<open>search_track\<close> (streams_service.py, lines 106-139). The search request goes through
  the executor, whose exception propagates. \<open>best_candidate\<close> is lines 117-128: no
  item gives \<^verbatim>\<open>None\<close>, the loop with \<^verbatim>\<open>break\<close> is \<open>find\<close>, the fallback is
  the first item.
\<close>

definition best_candidate :: "string \<Rightarrow> candidate list \<Rightarrow> candidate option" where
  "best_candidate isrc cands =
     (case cands of
        [] \<Rightarrow> None
      | first # _ \<Rightarrow> Some (case find (isrc_matches isrc) cands of Some t \<Rightarrow> t | None \<Rightarrow> first))"

definition search_track :: "string \<Rightarrow> (nat \<Rightarrow> candidate list outcome) \<Rightarrow> exn + track_info option" where
  "search_track isrc call =
     (case result (spotify_request_with_retries SPOTIFY_SEARCH_URL call) of
        Inl e \<Rightarrow> Inl e
      | Inr cands \<Rightarrow>
          (case best_candidate isrc cands of
             None \<Rightarrow> Inr None
           | Some best \<Rightarrow>
               (case (track_id best, album_id best) of
                  (Some tid, Some aid) \<Rightarrow>
                    if tid \<noteq> [] \<and> aid \<noteq> []
                    then Inr (Some (tid, aid, track_name best, artists_joined best))
                    else Inr None
                | _ \<Rightarrow> Inr None)))"

section \<open>Metrics extractor\<close>

text \<open>
  A decoded JSON value as Python holds it: \<^verbatim>\<open>None\<close>, a \<^verbatim>\<open>bool\<close>, an \<^verbatim>\<open>int\<close>,
  a finite \<^verbatim>\<open>float\<close> (by its value), a \<^verbatim>\<open>str\<close>, a \<^verbatim>\<open>list\<close>, or a
  \<^verbatim>\<open>dict\<close>: the list of its keys with their values, each key once. A key whose value
  is JSON \<^verbatim>\<open>null\<close> is present with the value \<open>JNull\<close>; an absent key is not in the
  list. An \<^verbatim>\<open>int\<close> has at most 4300 digits, the decoder raising on a longer one.
\<close>

datatype json =
    JNull
  | JBool bool
  | JInt int
  | JFloat rat
  | JStr string
  | JList "json list"
  | JDict "(string \<times> json) list"

type_synonym album_json = json

text \<open>The truth value of a value in a condition (\<^verbatim>\<open>if v\<close>, \<^verbatim>\<open>not v\<close>).\<close>

fun json_truthy :: "json \<Rightarrow> bool" where
  "json_truthy JNull = False"
| "json_truthy (JBool b) = b"
| "json_truthy (JInt n) = (n \<noteq> 0)"
| "json_truthy (JFloat q) = (q \<noteq> 0)"
| "json_truthy (JStr s) = (s \<noteq> [])"
| "json_truthy (JList xs) = (xs \<noteq> [])"
| "json_truthy (JDict kvs) = (kvs \<noteq> [])"

text \<open>
  \<^verbatim>\<open>obj.get(key, dflt)\<close>: the value of the key, or \<open>dflt\<close> when the key is absent.
  Only a \<^verbatim>\<open>dict\<close> has \<^verbatim>\<open>get\<close>; on any other value, \<^verbatim>\<open>None\<close> included, the
  attribute lookup raises \<^verbatim>\<open>AttributeError\<close>. \<^verbatim>\<open>obj.get(key)\<close> is
  \<open>dict_get obj key JNull\<close>.
\<close>

fun dict_get :: "json \<Rightarrow> string \<Rightarrow> json \<Rightarrow> exn + json" where
  "dict_get (JDict kvs) key dflt = Inr (case map_of kvs key of None \<Rightarrow> dflt | Some v \<Rightarrow> v)"
| "dict_get JNull key dflt = Inl AttributeError"
| "dict_get (JBool b) key dflt = Inl AttributeError"
| "dict_get (JInt n) key dflt = Inl AttributeError"
| "dict_get (JFloat q) key dflt = Inl AttributeError"
| "dict_get (JStr s) key dflt = Inl AttributeError"
| "dict_get (JList xs) key dflt = Inl AttributeError"

text \<open>One more \<^verbatim>\<open>.get(key, dflt)\<close> in a chain: an exception raised before it stands.\<close>

definition get_in :: "exn + json \<Rightarrow> string \<Rightarrow> json \<Rightarrow> exn + json" where
  "get_in r key dflt = (case r of Inl e \<Rightarrow> Inl e | Inr obj \<Rightarrow> dict_get obj key dflt)"

definition SPOTIFY_PATHFINDER_URL :: string where
  "SPOTIFY_PATHFINDER_URL = ''https://api-partner.spotify.com/pathfinder/v2/query''"

definition empty_json :: album_json where
  "empty_json = JDict []"

text \<open>
  \<^verbatim>\<open>fetch_album\<close> (lines 183-210). An attempt of the call returns the body, which is
  taken to decode: \<^verbatim>\<open>response_json\<close> is its value. A body whose \<^verbatim>\<open>data\<close> is absent
  or false (\<^verbatim>\<open>null\<close>, an empty object) and a request exception of the executor both
  give the empty object; any other exception propagates, the \<^verbatim>\<open>AttributeError\<close> of a
  body that is not an object included.
\<close>

definition fetch_album :: "(nat \<Rightarrow> album_json outcome) \<Rightarrow> exn + album_json" where
  "fetch_album call =
     (case result (spotify_request_with_retries SPOTIFY_PATHFINDER_URL call) of
        Inr response_json \<Rightarrow>
          (case dict_get response_json ''data'' JNull of
             Inl e \<Rightarrow> Inl e
           | Inr d \<Rightarrow> if \<not> json_truthy d then Inr empty_json else Inr response_json)
      | Inl (RequestException e) \<Rightarrow> Inr empty_json
      | Inl (OtherException e) \<Rightarrow> Inl (OtherException e))"

text \<open>
  The chain of lines 254-257:
  \<^verbatim>\<open>album_data.get("data", {}).get("albumUnion", {}).get("tracksV2", {}).get("items", [])\<close>.
\<close>

definition tracks_data :: "album_json \<Rightarrow> exn + json" where
  "tracks_data album_data =
     get_in (get_in (get_in (dict_get album_data ''data'' (JDict []))
       ''albumUnion'' (JDict [])) ''tracksV2'' (JDict [])) ''items'' (JList [])"

text \<open>
  \<^verbatim>\<open>for item in v\<close>: the elements of a list, the keys of a dict, the characters of a
  text; any other value is not iterable and raises \<^verbatim>\<open>TypeError\<close>.
\<close>

fun iterate :: "json \<Rightarrow> exn + json list" where
  "iterate (JList xs) = Inr xs"
| "iterate (JDict kvs) = Inr (map (\<lambda>kv. JStr (fst kv)) kvs)"
| "iterate (JStr s) = Inr (map (\<lambda>c. JStr [c]) s)"
| "iterate JNull = Inl TypeError"
| "iterate (JBool b) = Inl TypeError"
| "iterate (JInt n) = Inl TypeError"
| "iterate (JFloat q) = Inl TypeError"

text \<open>
  Lines 263-265: \<^verbatim>\<open>if raw and str(raw).isdigit(): playcount = int(raw)\<close>. A text is
  true when it is not empty, is its own \<^verbatim>\<open>str\<close>, and is converted by \<^verbatim>\<open>int\<close>,
  which may raise. An integer is true when it is not zero, its decimal text is all digits
  when it is not negative, and \<^verbatim>\<open>int\<close> returns it. The text of any other value has a
  character that is no digit: a letter (\<^verbatim>\<open>None\<close>, \<^verbatim>\<open>True\<close>), a point or an
  exponent (a float), a bracket (a list, a dict).
\<close>

fun usable_count :: "json \<Rightarrow> exn + int option" where
  "usable_count (JStr s) =
     (if s \<noteq> [] \<and> isdigit s
      then (case int_of_text s of Inl e \<Rightarrow> Inl e | Inr n \<Rightarrow> Inr (Some n))
      else Inr None)"
| "usable_count (JInt n) = (if n \<noteq> 0 \<and> 0 \<le> n then Inr (Some n) else Inr None)"
| "usable_count JNull = Inr None"
| "usable_count (JBool b) = Inr None"
| "usable_count (JFloat q) = Inr None"
| "usable_count (JList xs) = Inr None"
| "usable_count (JDict kvs) = Inr None"

text \<open>
  The loop of lines 259-266 over the entries, for the URI of the resolved track:
  \<^verbatim>\<open>t = item.get("track")\<close>, then \<^verbatim>\<open>if t and t.get("uri") == target\<close>, then the
  counter; \<^verbatim>\<open>break\<close> on the first counter that is usable. An exception ends the loop.
\<close>

fun scan_playcount :: "string \<Rightarrow> json list \<Rightarrow> exn + int option" where
  "scan_playcount target [] = Inr None"
| "scan_playcount target (item # rest) =
     (case dict_get item ''track'' JNull of
        Inl e \<Rightarrow> Inl e
      | Inr t \<Rightarrow>
          if \<not> json_truthy t then scan_playcount target rest
          else
            (case dict_get t ''uri'' JNull of
               Inl e \<Rightarrow> Inl e
             | Inr u \<Rightarrow>
                 if u \<noteq> JStr target then scan_playcount target rest
                 else
                   (case dict_get t ''playcount'' JNull of
                      Inl e \<Rightarrow> Inl e
                    | Inr raw \<Rightarrow>
                        (case usable_count raw of
                           Inl e \<Rightarrow> Inl e
                         | Inr (Some n) \<Rightarrow> Inr (Some n)
                         | Inr None \<Rightarrow> scan_playcount target rest))))"

definition track_uri :: "string \<Rightarrow> string" where
  "track_uri tid = ''spotify:track:'' @ tid"

text \<open>Lines 254-266: the entries, then the loop; \<^verbatim>\<open>playcount\<close> stays \<^verbatim>\<open>None\<close> or is set.\<close>

definition extract_playcount :: "string \<Rightarrow> album_json \<Rightarrow> exn + int option" where
  "extract_playcount tid album_data =
     (case tracks_data album_data of
        Inl e \<Rightarrow> Inl e
      | Inr v \<Rightarrow>
          (case iterate v of
             Inl e \<Rightarrow> Inl e
           | Inr entries \<Rightarrow> scan_playcount (track_uri tid) entries))"

section \<open>Similarity matcher\<close>

text \<open>
  Modelled from the spec: \<^verbatim>\<open>difflib.SequenceMatcher(None, a, b).ratio()\<close> is Python's
  standard library and not part of the repository. The spec names the algorithm: the
  longest-matching-blocks ratio of Ratcliff and Obershelp. The longest common block is
  searched (the one that starts earliest in \<open>a\<close>, then earliest in \<open>b\<close>, among the
  longest), the pieces to its left and to its right are matched in the same way, and the
  ratio is twice the number of matched elements over the total length (1 when both
  sequences are empty). The quotient is kept as an exact number; it has a small
  denominator, so comparing it with 0.85 gives what the floating-point comparison gives.
  The library's treatment of very frequent elements in sequences of 200 elements or more
  is not part of this model.
\<close>

fun common_prefix :: "'a list \<Rightarrow> 'a list \<Rightarrow> nat" where
  "common_prefix (x # xs) (y # ys) = (if x = y then Suc (common_prefix xs ys) else 0)"
| "common_prefix _ _ = 0"

definition better_match :: "'a list \<Rightarrow> 'a list \<Rightarrow> nat \<times> nat \<times> nat \<Rightarrow> nat \<times> nat \<Rightarrow> nat \<times> nat \<times> nat" where
  "better_match a b best ij =
     (let k = common_prefix (drop (fst ij) a) (drop (snd ij) b)
      in if snd (snd best) < k then (fst ij, snd ij, k) else best)"

definition find_longest_match :: "'a list \<Rightarrow> 'a list \<Rightarrow> nat \<times> nat \<times> nat" where
  "find_longest_match a b =
     foldl (better_match a b) (0, 0, 0) (List.product [0..<length a] [0..<length b])"

lemma common_prefix_le:
  "common_prefix xs ys \<le> length xs \<and> common_prefix xs ys \<le> length ys"
  by (induction xs ys rule: common_prefix.induct) auto

lemma better_match_bounds:
  assumes "fst best + snd (snd best) \<le> length a" "fst (snd best) + snd (snd best) \<le> length b"
  shows "fst (better_match a b best ij) + snd (snd (better_match a b best ij)) \<le> length a
       \<and> fst (snd (better_match a b best ij)) + snd (snd (better_match a b best ij)) \<le> length b"
proof -
  have "common_prefix (drop (fst ij) a) (drop (snd ij) b) \<le> length a - fst ij"
    "common_prefix (drop (fst ij) a) (drop (snd ij) b) \<le> length b - snd ij"
    using common_prefix_le [of "drop (fst ij) a" "drop (snd ij) b"] by simp_all
  then show ?thesis using assms by (auto simp: better_match_def Let_def)
qed

lemma foldl_better_match_bounds:
  assumes "fst best + snd (snd best) \<le> length a" "fst (snd best) + snd (snd best) \<le> length b"
  shows "fst (foldl (better_match a b) best cs) + snd (snd (foldl (better_match a b) best cs)) \<le> length a
       \<and> fst (snd (foldl (better_match a b) best cs)) + snd (snd (foldl (better_match a b) best cs)) \<le> length b"
  using assms
proof (induction cs arbitrary: best)
  case Nil
  then show ?case by simp
next
  case (Cons c cs)
  show ?case
    using Cons.IH [of "better_match a b best c"] better_match_bounds [OF Cons.prems, of c]
    by simp
qed

lemma find_longest_match_bounds:
  "find_longest_match a b = (i, j, k) \<Longrightarrow> i + k \<le> length a \<and> j + k \<le> length b"
  using foldl_better_match_bounds [of "(0, 0, 0)" a b "List.product [0..<length a] [0..<length b]"]
  by (simp add: find_longest_match_def)

function matches :: "'a list \<Rightarrow> 'a list \<Rightarrow> nat" where
  "matches a b =
     (case find_longest_match a b of
        (i, j, k) \<Rightarrow>
          if k = 0 then 0
          else matches (take i a) (take j b) + k + matches (drop (i + k) a) (drop (j + k) b))"
  by pat_completeness auto
termination
proof (relation "measure (\<lambda>(a, b). length a + length b)")
  show "wf (measure (\<lambda>(a, b). length a + length b))" by simp
next
  fix a b :: "'a list" and x i y j k
  assume "(i, y) = find_longest_match a b" "(j, k) = y" "k \<noteq> 0"
  then have "find_longest_match a b = (i, j, k)" by simp
  from find_longest_match_bounds [OF this] \<open>k \<noteq> 0\<close>
  show "((take i a, take j b), a, b) \<in> measure (\<lambda>(a, b). length a + length b)"
    by simp
next
  fix a b :: "'a list" and x i y j k
  assume "(i, y) = find_longest_match a b" "(j, k) = y" "k \<noteq> 0"
  then have "find_longest_match a b = (i, j, k)" by simp
  from find_longest_match_bounds [OF this] \<open>k \<noteq> 0\<close>
  show "((drop (i + k) a, drop (j + k) b), a, b) \<in> measure (\<lambda>(a, b). length a + length b)"
    by simp arith
qed

declare matches.simps [simp del]

definition ratio :: "'a list \<Rightarrow> 'a list \<Rightarrow> real" where
  "ratio a b =
     (if length a + length b = 0 then 1
      else 2 * real (matches a b) / real (length a + length b))"

text \<open>\<^verbatim>\<open>similar\<close> (catalogue_health_service.py, lines 31-35).\<close>

definition similar :: "string \<Rightarrow> string \<Rightarrow> real" where
  "similar a b = (if a = [] \<or> b = [] then 0 else ratio (lower a) (lower b))"

section \<open>Availability checker\<close>

text \<open>
  One entry of \<^verbatim>\<open>results\<close> in the answer of the Catalog A search. A field is the empty
  string when its key is absent, as \<^verbatim>\<open>result.get(key, '')\<close> gives.
\<close>

record apple_result =
  trackName :: string
  collectionName :: string
  artistName :: string

text \<open>
  What one attempt of the Catalog A request returns when it does not raise: the status
  403, or another successful status with its results. An error status other than 403 is
  the request exception that \<^verbatim>\<open>raise_for_status\<close> raises.
\<close>

datatype apple_reply = Forbidden | Results "apple_result list"

text \<open>The match rule of lines 73-74.\<close>

definition apple_result_matches :: "string \<Rightarrow> string \<Rightarrow> apple_result \<Rightarrow> bool" where
  "apple_result_matches artist title r =
     (85 / 100 \<le> similar (artistName r) artist
      \<and> (85 / 100 \<le> similar (trackName r) title \<or> 85 / 100 \<le> similar (collectionName r) title))"

text \<open>
  \<^verbatim>\<open>check_apple_music_api\<close> (catalogue_health_service.py, lines 37-89). On 403 the
  loop waits and goes to the next attempt; a request exception is retried after a pause
  on attempts 0 and 1 and gives \<^verbatim>\<open>False\<close> on attempt 2; an answered request decides.
  The first equation is the end of the loop (lines 88-89).
\<close>

fun apple_attempts :: "string \<Rightarrow> string \<Rightarrow> (nat \<Rightarrow> apple_reply outcome) \<Rightarrow> nat list \<Rightarrow> exn + bool" where
  "apple_attempts artist title call [] = Inr False"
| "apple_attempts artist title call (attempt # rest) =
     (case call attempt of
        Returns Forbidden \<Rightarrow> apple_attempts artist title call rest
      | Returns (Results rs) \<Rightarrow> Inr (list_ex (apple_result_matches artist title) rs)
      | RaisesRequest e \<Rightarrow>
          (if attempt < 2 then apple_attempts artist title call rest else Inr False)
      | RaisesOther e \<Rightarrow> Inl (OtherException e))"

definition check_apple_music_api :: "string \<Rightarrow> string \<Rightarrow> (nat \<Rightarrow> apple_reply outcome) \<Rightarrow> exn + bool" where
  "check_apple_music_api artist title call = apple_attempts artist title call [0, 1, 2]"

text \<open>
  One entry of \<^verbatim>\<open>tracks.items\<close> in the answer of the Catalog B search, and
  \<^verbatim>\<open>check_spotify_api\<close> (lines 91-113): any exception of the client gives \<^verbatim>\<open>False\<close>.
\<close>

record spotify_item =
  item_name :: string
  item_artists :: "string list"

definition spotify_item_matches :: "string \<Rightarrow> string \<Rightarrow> spotify_item \<Rightarrow> bool" where
  "spotify_item_matches artist title item =
     (85 / 100 \<le> similar (item_name item) title
      \<and> list_ex (\<lambda>a_name. 85 / 100 \<le> similar a_name artist) (item_artists item))"

definition check_spotify_api :: "string \<Rightarrow> string \<Rightarrow> exn + spotify_item list \<Rightarrow> bool" where
  "check_spotify_api artist title found =
     (case found of
        Inl e \<Rightarrow> False
      | Inr its \<Rightarrow> list_ex (spotify_item_matches artist title) its)"

section \<open>Catalogue, snapshot tables and the keyed upsert\<close>

text \<open>
  A row of \<^verbatim>\<open>track_dim\<close>. Title and artist may be null. A date is kept as its day
  ordinal: \<^verbatim>\<open>date.isoformat()\<close> is one-to-one on dates, so the text it renders is not
  modelled, and an absent or empty date override is \<open>None\<close>.
\<close>

record track =
  track_uid :: string
  track_isrc :: string
  track_title :: "string option"
  track_artist :: "string option"
  track_owner :: string

text \<open>\<^verbatim>\<open>SELECT track_uid, isrc, title, artist FROM track_dim WHERE user_id = %s\<close>\<close>

definition user_tracks :: "string \<Rightarrow> track list \<Rightarrow> track list" where
  "user_tracks uid track_dim = filter (\<lambda>t. track_owner t = uid) track_dim"

text \<open>
  \<^verbatim>\<open>INSERT ... ON CONFLICT (key) DO UPDATE SET ...\<close> on a table kept as the list of its
  rows: a row with the key of the new row is rewritten by the \<^verbatim>\<open>DO UPDATE\<close> clause,
  and the new row is appended when there is none.
\<close>

definition upsert :: "('r \<Rightarrow> 'k) \<Rightarrow> ('r \<Rightarrow> 'r \<Rightarrow> 'r) \<Rightarrow> 'r \<Rightarrow> 'r list \<Rightarrow> 'r list" where
  "upsert key on_conflict excluded tbl =
     (if list_ex (\<lambda>r. key r = key excluded) tbl
      then map (\<lambda>r. if key r = key excluded then on_conflict r excluded else r) tbl
      else tbl @ [excluded])"

text \<open>The table \<^verbatim>\<open>streams\<close> and the statement of streams_service.py, lines 270-275.\<close>

record stream_row =
  platform :: string
  stream_track_uid :: string
  stream_date :: int
  stream_playcount :: int
  stream_user_id :: string

definition stream_key :: "stream_row \<Rightarrow> string \<times> string \<times> int" where
  "stream_key r = (platform r, stream_track_uid r, stream_date r)"

definition stream_conflict :: "stream_row \<Rightarrow> stream_row \<Rightarrow> stream_row" where
  "stream_conflict old excluded = old\<lparr>stream_playcount := stream_playcount excluded\<rparr>"

definition upsert_stream :: "stream_row \<Rightarrow> stream_row list \<Rightarrow> stream_row list" where
  "upsert_stream = upsert stream_key stream_conflict"

text \<open>
  The table \<^verbatim>\<open>catalogue_health_status\<close> and the statement of
  catalogue_health_service.py, lines 160-169. The insert does not name
  \<^verbatim>\<open>updated_at\<close>, which is left to the column (\<open>None\<close> here); the update sets it to
  the time of the statement.
\<close>

record health_row =
  check_date :: int
  health_track_uid :: string
  apple_music_status :: bool
  spotify_status :: bool
  health_user_id :: string
  updated_at :: "nat option"

definition health_key :: "health_row \<Rightarrow> int \<times> string" where
  "health_key r = (check_date r, health_track_uid r)"

definition health_conflict :: "nat \<Rightarrow> health_row \<Rightarrow> health_row \<Rightarrow> health_row" where
  "health_conflict now old excluded =
     old\<lparr>apple_music_status := apple_music_status excluded,
         spotify_status := spotify_status excluded,
         updated_at := Some now\<rparr>"

definition upsert_health :: "nat \<Rightarrow> health_row \<Rightarrow> health_row list \<Rightarrow> health_row list" where
  "upsert_health now = upsert health_key (health_conflict now)"

text \<open>
  A connection with its open transaction: the table as committed and the table as the
  transaction sees it.
\<close>

record 'r conn =
  committed :: "'r list"
  working :: "'r list"

definition connect :: "'r list \<Rightarrow> 'r conn" where
  "connect tbl = \<lparr>committed = tbl, working = tbl\<rparr>"

definition commit :: "'r conn \<Rightarrow> 'r conn" where
  "commit c = c\<lparr>committed := working c\<rparr>"

definition rollback :: "'r conn \<Rightarrow> 'r conn" where
  "rollback c = c\<lparr>working := committed c\<rparr>"

section \<open>The environment of a run\<close>

text \<open>
  Everything a run reads from outside: the token request, the tokens observed in the
  browser session (or the exception of the capture), the exception of
  \<^verbatim>\<open>db_conn()\<close> if it raises, the search request for a code, the metrics request for
  an album, the exception of the view refresh if it raises, the Catalog A request and the
  Catalog B client call for an artist and a title.
\<close>

record world =
  token_call :: "nat \<Rightarrow> string outcome"
  sniff_tokens :: "exn + string \<times> string option"
  db_conn :: "exn option"
  search_calls :: "string \<Rightarrow> nat \<Rightarrow> candidate list outcome"
  album_calls :: "string \<Rightarrow> nat \<Rightarrow> album_json outcome"
  refresh_view :: "exn option"
  apple_calls :: "string \<Rightarrow> string \<Rightarrow> nat \<Rightarrow> apple_reply outcome"
  spotify_search :: "string \<Rightarrow> string \<Rightarrow> exn + spotify_item list"

section \<open>The metrics run\<close>

definition SPOTIFY_TOKEN_URL :: string where
  "SPOTIFY_TOKEN_URL = ''https://accounts.spotify.com/api/token''"

definition get_spotify_token :: "world \<Rightarrow> exn + string" where
  "get_spotify_token env = result (spotify_request_with_retries SPOTIFY_TOKEN_URL (token_call env))"

text \<open>
  The body of the \<^verbatim>\<open>try\<close> for one track, up to the decision of line 268
  (streams_service.py, lines 245-266): an exception, no track found (line 248), no
  usable counter, or the counter.
\<close>

datatype collected = Failed exn | NoTrack | NoMetric | Metric int

definition collect_track :: "world \<Rightarrow> track \<Rightarrow> collected" where
  "collect_track env trk =
     (case search_track (track_isrc trk) (search_calls env (track_isrc trk)) of
        Inl e \<Rightarrow> Failed e
      | Inr None \<Rightarrow> NoTrack
      | Inr (Some (tid, aid, api_title, api_artist)) \<Rightarrow>
          (case fetch_album (album_calls env aid) of
             Inl e \<Rightarrow> Failed e
           | Inr album_data \<Rightarrow>
               (case extract_playcount tid album_data of
                  Inl e \<Rightarrow> Failed e
                | Inr None \<Rightarrow> NoMetric
                | Inr (Some pc) \<Rightarrow> Metric pc)))"

record streams_state =
  stream_conn :: "stream_row conn"
  processed :: nat
  errors :: nat
  total_playcount :: int

definition new_stream_row :: "int \<Rightarrow> string \<Rightarrow> track \<Rightarrow> int \<Rightarrow> stream_row" where
  "new_stream_row day_iso uid trk pc =
     \<lparr>platform = ''spotify'', stream_track_uid = track_uid trk, stream_date = day_iso,
      stream_playcount = pc, stream_user_id = uid\<rparr>"

text \<open>
  One turn of the loop (lines 242-284): the upsert and the two counters when there is a
  counter, the error count in the \<^verbatim>\<open>except\<close> branch. There is no commit in the loop.
  The store is taken to accept the statement.
\<close>

definition streams_step :: "world \<Rightarrow> int \<Rightarrow> string \<Rightarrow> streams_state \<Rightarrow> track \<Rightarrow> streams_state" where
  "streams_step env day_iso uid st trk =
     (case collect_track env trk of
        Failed e \<Rightarrow> st\<lparr>errors := errors st + 1\<rparr>
      | NoTrack \<Rightarrow> st
      | NoMetric \<Rightarrow> st
      | Metric pc \<Rightarrow>
          st\<lparr>stream_conn := (stream_conn st)\<lparr>working :=
                 upsert_stream (new_stream_row day_iso uid trk pc) (working (stream_conn st))\<rparr>,
             total_playcount := total_playcount st + pc,
             processed := processed st + 1\<rparr>)"

datatype alert = ErrorAlert exn | ZeroStreamsAlert int

record streams_outcome =
  final :: streams_state
  raised :: "exn option"
  alerts :: "alert list"
  view_refreshed :: bool

text \<open>The state when the loop is entered, for the table as the connection finds it.\<close>

definition streams_start :: "stream_row list \<Rightarrow> streams_state" where
  "streams_start tbl = \<lparr>stream_conn = connect tbl, processed = 0, errors = 0, total_playcount = 0\<rparr>"

text \<open>The \<^verbatim>\<open>except\<close> branch of the run (lines 298-303): alert, roll back, re-raise.\<close>

definition streams_fatal :: "streams_state \<Rightarrow> exn \<Rightarrow> streams_outcome" where
  "streams_fatal st e =
     \<lparr>final = st\<lparr>stream_conn := rollback (stream_conn st)\<rparr>, raised = Some e,
      alerts = [ErrorAlert e], view_refreshed = False\<rparr>"

definition day_of :: "int \<Rightarrow> int option \<Rightarrow> int" where
  "day_of today day_override = (case day_override of Some d \<Rightarrow> d | None \<Rightarrow> today - 1)"

text \<open>
  \<^verbatim>\<open>run_streams_collection\<close> (lines 212-306) for the table \<open>tbl\<close> as it is when the
  connection opens. The alerts are the calls of \<^verbatim>\<open>send_telegram_alert\<close>.
\<close>

definition run_streams_collection ::
    "world \<Rightarrow> track list \<Rightarrow> stream_row list \<Rightarrow> int \<Rightarrow> string \<Rightarrow> int option \<Rightarrow> streams_outcome" where
  "run_streams_collection env track_dim tbl today uid day_override =
     (let day_iso = day_of today day_override;
          start = streams_start tbl
      in case get_spotify_token env of
           Inl e \<Rightarrow> streams_fatal start e
         | Inr search_token \<Rightarrow>
             (case sniff_tokens env of
                Inl e \<Rightarrow> streams_fatal start e
              | Inr web_tokens \<Rightarrow>
                  (case db_conn env of
                     Some e \<Rightarrow> streams_fatal start e
                   | None \<Rightarrow>
                       (let st = foldl (streams_step env day_iso uid) start (user_tracks uid track_dim);
                            st1 = st\<lparr>stream_conn := commit (stream_conn st)\<rparr>
                        in case refresh_view env of
                             Some e \<Rightarrow> streams_fatal st1 e
                           | None \<Rightarrow>
                               \<lparr>final = st1\<lparr>stream_conn := commit (stream_conn st1)\<rparr>,
                                raised = None,
                                alerts = (if 0 < processed st1 \<and> total_playcount st1 = 0
                                          then [ZeroStreamsAlert day_iso] else []),
                                view_refreshed = True\<rparr>))))"

section \<open>The availability run\<close>

definition text_of :: "string option \<Rightarrow> string" where
  "text_of v = (case v of None \<Rightarrow> [] | Some s \<Rightarrow> s)"

text \<open>
  One track of the loop up to the two checks (catalogue_health_service.py, lines
  145-154): skipped for missing metadata, an exception that the Catalog A check lets
  through, or the two answers.
\<close>

datatype checked = Skipped | Crashed exn | Checked bool bool

definition check_track :: "world \<Rightarrow> track \<Rightarrow> checked" where
  "check_track env trk =
     (if \<not> truthy (track_title trk) \<or> \<not> truthy (track_artist trk) then Skipped
      else (let title = text_of (track_title trk); artist = text_of (track_artist trk)
            in case check_apple_music_api artist title (apple_calls env artist title) of
                 Inl e \<Rightarrow> Crashed e
               | Inr apple_exists \<Rightarrow>
                   Checked apple_exists
                     (check_spotify_api artist title (spotify_search env artist title))))"

record health_state =
  health_conn :: "health_row conn"
  checked_count :: nat
  health_errors :: nat

definition new_health_row :: "int \<Rightarrow> string \<Rightarrow> track \<Rightarrow> bool \<Rightarrow> bool \<Rightarrow> health_row" where
  "new_health_row check_date_iso uid trk apple_exists spotify_exists =
     \<lparr>check_date = check_date_iso, health_track_uid = track_uid trk,
      apple_music_status = apple_exists, spotify_status = spotify_exists,
      health_user_id = uid, updated_at = None\<rparr>"

definition health_start :: "health_row list \<Rightarrow> health_state" where
  "health_start tbl = \<lparr>health_conn = connect tbl, checked_count = 0, health_errors = 0\<rparr>"

text \<open>Lines 159-176 for a checked track: the upsert, the count, the commit of a batch.\<close>

definition health_store :: "int \<Rightarrow> nat \<Rightarrow> string \<Rightarrow> health_state \<Rightarrow> health_row \<Rightarrow> health_state" where
  "health_store check_date_iso now uid st row =
     (let st1 = st\<lparr>health_conn := (health_conn st)\<lparr>working :=
                     upsert_health now row (working (health_conn st))\<rparr>,
                   checked_count := checked_count st + 1\<rparr>
      in if checked_count st1 mod 10 = 0
         then st1\<lparr>health_conn := commit (health_conn st1)\<rparr>
         else st1)"

text \<open>The loop of lines 144-176; an exception ends it with the state it has reached.\<close>

fun health_loop :: "world \<Rightarrow> int \<Rightarrow> nat \<Rightarrow> string \<Rightarrow> track list \<Rightarrow> health_state \<Rightarrow> health_state \<times> exn option" where
  "health_loop env check_date_iso now uid [] st = (st, None)"
| "health_loop env check_date_iso now uid (trk # rest) st =
     (case check_track env trk of
        Skipped \<Rightarrow> health_loop env check_date_iso now uid rest st
      | Crashed e \<Rightarrow> (st, Some e)
      | Checked apple_exists spotify_exists \<Rightarrow>
          health_loop env check_date_iso now uid rest
            (health_store check_date_iso now uid st
               (new_health_row check_date_iso uid trk apple_exists spotify_exists)))"

record health_outcome =
  health_final :: health_state
  health_raised :: "exn option"

text \<open>
  \<^verbatim>\<open>run_catalogue_health_check\<close> (lines 115-188) for the table \<open>tbl\<close> as it is when
  the connection opens, on the day \<open>today\<close>, with the statement time \<open>now\<close>. The function
  has no date parameter. When \<^verbatim>\<open>db_conn()\<close> raises, the name \<^verbatim>\<open>conn\<close> is still
  unbound in the \<^verbatim>\<open>except\<close> branch, and that is the exception the caller sees.
\<close>

definition run_catalogue_health_check ::
    "world \<Rightarrow> track list \<Rightarrow> health_row list \<Rightarrow> int \<Rightarrow> nat \<Rightarrow> string \<Rightarrow> health_outcome" where
  "run_catalogue_health_check env track_dim tbl today now uid =
     (let start = health_start tbl
      in case db_conn env of
           Some e \<Rightarrow> \<lparr>health_final = start, health_raised = Some (OtherException ''UnboundLocalError'')\<rparr>
         | None \<Rightarrow>
             (case health_loop env today now uid (user_tracks uid track_dim) start of
                (st, None) \<Rightarrow>
                  \<lparr>health_final = st\<lparr>health_conn := commit (health_conn st)\<rparr>, health_raised = None\<rparr>
              | (st, Some e) \<Rightarrow>
                  \<lparr>health_final = st\<lparr>health_conn := rollback (health_conn st)\<rparr>,
                   health_raised = Some e\<rparr>))"

section \<open>The rows a run writes\<close>

text \<open>
  The rows that the loop of the metrics run upserts, in order: one for each track whose
  counter was extracted. Likewise the rows that the loop of the availability run upserts
  when no exception ends it: one for each track that is not skipped.
\<close>

definition track_rows :: "world \<Rightarrow> int \<Rightarrow> string \<Rightarrow> track \<Rightarrow> stream_row list" where
  "track_rows env day_iso uid trk =
     (case collect_track env trk of
        Metric pc \<Rightarrow> [new_stream_row day_iso uid trk pc]
      | _ \<Rightarrow> [])"

definition stream_rows :: "world \<Rightarrow> int \<Rightarrow> string \<Rightarrow> track list \<Rightarrow> stream_row list" where
  "stream_rows env day_iso uid trks = concat (map (track_rows env day_iso uid) trks)"

definition is_failed :: "collected \<Rightarrow> bool" where
  "is_failed c = (case c of Failed e \<Rightarrow> True | _ \<Rightarrow> False)"

definition check_rows :: "world \<Rightarrow> int \<Rightarrow> string \<Rightarrow> track \<Rightarrow> health_row list" where
  "check_rows env check_date_iso uid trk =
     (case check_track env trk of
        Checked apple_exists spotify_exists \<Rightarrow>
          [new_health_row check_date_iso uid trk apple_exists spotify_exists]
      | _ \<Rightarrow> [])"

definition health_rows :: "world \<Rightarrow> int \<Rightarrow> string \<Rightarrow> track list \<Rightarrow> health_row list" where
  "health_rows env check_date_iso uid trks = concat (map (check_rows env check_date_iso uid) trks)"

definition is_crashed :: "checked \<Rightarrow> bool" where
  "is_crashed c = (case c of Crashed e \<Rightarrow> True | _ \<Rightarrow> False)"

section \<open>Sample data\<close>

text \<open>Concrete inputs on which the theorems below are exercised.\<close>

definition cand_other :: candidate where
  "cand_other = \<lparr>external_isrc = Some ''GBXYZ0000001'', track_id = Some ''t0'',
     album_id = Some ''a0'', track_name = Some ''Other'', artist_names = [Some ''Someone'']\<rparr>"

definition cand_exact :: candidate where
  "cand_exact = \<lparr>external_isrc = Some ''isrc123'', track_id = Some ''t1'',
     album_id = Some ''a1'', track_name = Some ''Song'', artist_names = [Some ''A'', None, Some ''B'']\<rparr>"

definition cand_no_album :: candidate where
  "cand_no_album = \<lparr>external_isrc = Some ''ISRC123'', track_id = Some ''t1'',
     album_id = None, track_name = Some ''Song'', artist_names = []\<rparr>"

definition album_entry :: "string \<Rightarrow> json \<Rightarrow> json" where
  "album_entry u c = JDict [(''track'', JDict [(''uri'', JStr u), (''playcount'', c)])]"

definition album_of :: "json list \<Rightarrow> album_json" where
  "album_of xs =
     JDict [(''data'', JDict [(''albumUnion'', JDict [(''tracksV2'', JDict [(''items'', JList xs)])])])]"

definition album_ok :: album_json where
  "album_ok = album_of [JDict [],
     album_entry ''spotify:track:t0'' (JStr ''17''),
     album_entry ''spotify:track:t1'' (JStr ''4821'')]"

definition album_zero :: album_json where
  "album_zero = album_of [album_entry ''spotify:track:t1'' (JInt 0)]"

definition album_superscript :: album_json where
  "album_superscript = album_of [album_entry ''spotify:track:t1'' (JStr [CHR 0xB2])]"

definition album_null_union :: album_json where
  "album_null_union = JDict [(''data'', JDict [(''albumUnion'', JNull)])]"

definition apple_album_hit :: apple_result where
  "apple_album_hit = \<lparr>trackName = ''abcdefghXY'', collectionName = ''abcdefghiX'',
     artistName = ''KLMNOPQRSX''\<rparr>"

definition apple_weak_artist :: apple_result where
  "apple_weak_artist = \<lparr>trackName = ''abcdefghij'', collectionName = ''abcdefghij'',
     artistName = ''KLMNOPQRXY''\<rparr>"

definition album_text_zero :: album_json where
  "album_text_zero = album_of [album_entry ''spotify:track:t1'' (JStr ''0'')]"

definition world_ok :: world where
  "world_ok =
     \<lparr>token_call = (\<lambda>k. Returns ''token''),
      sniff_tokens = Inr (''web'', Some ''client''),
      db_conn = None,
      search_calls = (\<lambda>code k. Returns [cand_other, cand_exact]),
      album_calls = (\<lambda>aid k. Returns album_ok),
      refresh_view = None,
      apple_calls = (\<lambda>artist title k. Returns (Results [apple_weak_artist, apple_album_hit])),
      spotify_search = (\<lambda>artist title. Inr [])\<rparr>"

definition world_zero :: world where
  "world_zero = world_ok\<lparr>album_calls := (\<lambda>aid k. Returns album_text_zero)\<rparr>"

definition world_zero_no_view :: world where
  "world_zero_no_view = world_zero\<lparr>refresh_view := Some (OtherException ''no such view'')\<rparr>"

definition world_number_zero :: world where
  "world_number_zero = world_ok\<lparr>album_calls := (\<lambda>aid k. Returns album_zero)\<rparr>"

definition world_null_union :: world where
  "world_null_union = world_ok\<lparr>album_calls := (\<lambda>aid k. Returns album_null_union)\<rparr>"

definition world_superscript :: world where
  "world_superscript = world_ok\<lparr>album_calls := (\<lambda>aid k. Returns album_superscript)\<rparr>"

definition world_metrics_down :: world where
  "world_metrics_down = world_ok\<lparr>album_calls := (\<lambda>aid k. RaisesRequest ''503'')\<rparr>"

definition world_search_down :: world where
  "world_search_down = world_ok\<lparr>search_calls := (\<lambda>code k. RaisesRequest ''timeout'')\<rparr>"

definition world_checks_down :: world where
  "world_checks_down = world_ok\<lparr>apple_calls := (\<lambda>artist title k. RaisesRequest ''reset''),
     spotify_search := (\<lambda>artist title. Inl (OtherException ''client''))\<rparr>"

definition song :: "string \<Rightarrow> track" where
  "song u = \<lparr>track_uid = u, track_isrc = ''ISRC123'', track_title = Some ''abcdefghij'',
     track_artist = Some ''klmnopqrst'', track_owner = ''user1''\<rparr>"

definition catalogue1 :: "track list" where
  "catalogue1 = [song ''a'']"

definition catalogue11 :: "track list" where
  "catalogue11 = map song [''a'', ''b'', ''c'', ''d'', ''e'', ''f'', ''g'', ''h'', ''i'', ''j'', ''k'']"

definition unreadable_song :: track where
  "unreadable_song = \<lparr>track_uid = ''z'', track_isrc = ''ISRC999'', track_title = Some ''unreadable'',
     track_artist = Some ''klmnopqrst'', track_owner = ''user1''\<rparr>"

definition world_unreadable :: world where
  "world_unreadable = world_ok\<lparr>apple_calls := (\<lambda>artist title k.
       if title = ''unreadable'' then RaisesOther ''invalid body'' else Returns (Results []))\<rparr>"

definition catalogue12 :: "track list" where
  "catalogue12 = catalogue11 @ [unreadable_song]"

section \<open>Properties of the request executor\<close>

lemma retries_all_fail:
  assumes "call 0 = RaisesRequest e0" "call 1 = RaisesRequest e1" "call 2 = RaisesRequest e2"
  shows "spotify_request_with_retries url call =
           \<lparr>result = Inl (RequestException e2), attempts = 3, sleeps = [1, 2]\<rparr>"
  using assms by (simp add: spotify_request_with_retries_def)

lemma retries_request_exception_needs_three:
  assumes "result (spotify_request_with_retries url call) = Inl (RequestException e)"
  shows "attempts (spotify_request_with_retries url call) = 3"
  using assms
  by (cases "call 0"; cases "call 1"; cases "call 2")
     (simp_all add: spotify_request_with_retries_def)

lemma retries_first_attempt_fatal:
  assumes "call 0 = RaisesOther e"
  shows "spotify_request_with_retries url call =
           \<lparr>result = Inl (OtherException e), attempts = 1, sleeps = []\<rparr>"
  using assms by (simp add: spotify_request_with_retries_def)

lemma retries_success:
  assumes "k < 3" "call k = Returns r" "\<forall>j<k. \<exists>e. call j = RaisesRequest e"
  shows "result (spotify_request_with_retries url call) = Inr r
         \<and> attempts (spotify_request_with_retries url call) = Suc k"
proof -
  from assms(1) consider "k = 0" | "k = 1" | "k = 2" by linarith
  then show ?thesis
  proof cases
    case 1
    with assms(2) show ?thesis by (simp add: spotify_request_with_retries_def)
  next
    case 2
    with assms(3) obtain e0 where "call 0 = RaisesRequest e0" by auto
    with 2 assms(2) show ?thesis by (simp add: spotify_request_with_retries_def)
  next
    case 3
    with assms(3) have "\<exists>e. call 0 = RaisesRequest e" "\<exists>e. call 1 = RaisesRequest e"
      by simp_all
    then obtain e0 e1 where "call 0 = RaisesRequest e0" "call 1 = RaisesRequest e1" by blast
    with 3 assms(2) show ?thesis by (simp add: spotify_request_with_retries_def)
  qed
qed

text \<open>
  Claim C2. A call whose three attempts all raise a request exception is tried exactly
  three times (with sleeps of 1 and 2 seconds in between) and then fails with the request
  exception of the last attempt. A failure of the request-exception type is only ever
  surfaced after three attempts, so it cannot be confused with a failure on the first
  attempt, which is of the other type and costs one attempt. The first attempt that
  returns decides the result, whatever the earlier attempts raised.
\<close>

theorem executor_retry_contract:
  "((\<forall>k<3. \<exists>e. call k = RaisesRequest e) \<longrightarrow>
      (\<exists>e. call 2 = RaisesRequest e
          \<and> result (spotify_request_with_retries url call) = Inl (RequestException e))
      \<and> attempts (spotify_request_with_retries url call) = 3
      \<and> sleeps (spotify_request_with_retries url call) = [1, 2])
   \<and> (\<forall>e. result (spotify_request_with_retries url call) = Inl (RequestException e) \<longrightarrow>
          attempts (spotify_request_with_retries url call) = 3)
   \<and> (\<forall>e. call 0 = RaisesOther e \<longrightarrow>
          result (spotify_request_with_retries url call) = Inl (OtherException e)
          \<and> attempts (spotify_request_with_retries url call) = 1)
   \<and> (\<forall>k r. k < 3 \<and> call k = Returns r \<and> (\<forall>j<k. \<exists>e. call j = RaisesRequest e) \<longrightarrow>
          result (spotify_request_with_retries url call) = Inr r
          \<and> attempts (spotify_request_with_retries url call) = Suc k)"
proof (intro conjI impI allI)
  assume all: "\<forall>k<3. \<exists>e. call k = RaisesRequest e"
  then have "\<exists>e. call 0 = RaisesRequest e" "\<exists>e. call 1 = RaisesRequest e"
    "\<exists>e. call 2 = RaisesRequest e" by simp_all
  then obtain e0 e1 e2 where
    c: "call 0 = RaisesRequest e0" "call 1 = RaisesRequest e1" "call 2 = RaisesRequest e2"
    by blast
  note r = retries_all_fail [of call e0 e1 e2 url, OF c]
  show "\<exists>e. call 2 = RaisesRequest e
          \<and> result (spotify_request_with_retries url call) = Inl (RequestException e)"
    using c(3) r by simp
  show "attempts (spotify_request_with_retries url call) = 3" using r by simp
  show "sleeps (spotify_request_with_retries url call) = [1, 2]" using r by simp
next
  fix e assume "result (spotify_request_with_retries url call) = Inl (RequestException e)"
  then show "attempts (spotify_request_with_retries url call) = 3"
    by (rule retries_request_exception_needs_three)
next
  fix e assume c: "call 0 = RaisesOther e"
  show "result (spotify_request_with_retries url call) = Inl (OtherException e)"
    using c by (simp add: retries_first_attempt_fatal)
  show "attempts (spotify_request_with_retries url call) = 1"
    using c by (simp add: retries_first_attempt_fatal)
next
  fix k r
  assume h: "k < 3 \<and> call k = Returns r \<and> (\<forall>j<k. \<exists>e. call j = RaisesRequest e)"
  then have s: "result (spotify_request_with_retries url call) = Inr r
         \<and> attempts (spotify_request_with_retries url call) = Suc k"
    using retries_success [of k call r url] by blast
  from s show "result (spotify_request_with_retries url call) = Inr r" by simp
  from s show "attempts (spotify_request_with_retries url call) = Suc k" by simp
qed

theorem executor_retry_contract_witness:
  "result (spotify_request_with_retries ''u'' (\<lambda>k. RaisesRequest ''timeout'' :: unit outcome))
     = Inl (RequestException ''timeout'')
   \<and> attempts (spotify_request_with_retries ''u'' (\<lambda>k. RaisesRequest ''timeout'' :: unit outcome)) = 3
   \<and> result (spotify_request_with_retries ''u''
        (\<lambda>k. if k = 2 then Returns (200::nat) else RaisesRequest ''reset'')) = Inr 200
   \<and> attempts (spotify_request_with_retries ''u''
        (\<lambda>k. if k = 2 then Returns (200::nat) else RaisesRequest ''reset'')) = 3"
proof -
  let ?fail = "\<lambda>k::nat. RaisesRequest ''timeout'' :: unit outcome"
  let ?late = "\<lambda>k::nat. if k = 2 then Returns (200::nat) else RaisesRequest ''reset''"
  have f: "\<forall>k<3. \<exists>e. ?fail k = RaisesRequest e" by simp
  have a: "(\<exists>e. ?fail 2 = RaisesRequest e
          \<and> result (spotify_request_with_retries ''u'' ?fail) = Inl (RequestException e))
      \<and> attempts (spotify_request_with_retries ''u'' ?fail) = 3
      \<and> sleeps (spotify_request_with_retries ''u'' ?fail) = [1, 2]"
    using executor_retry_contract [of ?fail "''u''", THEN conjunct1] f by (rule mp)
  have l: "(2::nat) < 3 \<and> ?late 2 = Returns 200 \<and> (\<forall>j<2. \<exists>e. ?late j = RaisesRequest e)"
    by simp
  have b: "result (spotify_request_with_retries ''u'' ?late) = Inr 200
         \<and> attempts (spotify_request_with_retries ''u'' ?late) = Suc 2"
    using executor_retry_contract [of ?late "''u''", THEN conjunct2, THEN conjunct2,
        THEN conjunct2, THEN spec, THEN spec, of 2 200] l
    by (rule mp)
  from a b show ?thesis by simp
qed

section \<open>Properties of the track resolver\<close>

lemma best_candidate_policy:
  "best_candidate isrc cands = Some best \<longleftrightarrow>
     cands \<noteq> [] \<and>
     ((\<exists>i<length cands. best = cands ! i \<and> isrc_matches isrc (cands ! i)
          \<and> (\<forall>j<i. \<not> isrc_matches isrc (cands ! j)))
      \<or> ((\<forall>t\<in>set cands. \<not> isrc_matches isrc t) \<and> best = cands ! 0))"
proof (cases cands)
  case Nil
  then show ?thesis by (simp add: best_candidate_def)
next
  case (Cons first rest)
  show ?thesis
  proof (cases "find (isrc_matches isrc) cands")
    case None
    then have no: "\<forall>t\<in>set cands. \<not> isrc_matches isrc t" by (simp add: find_None_iff)
    then have "\<not> (\<exists>i<length cands. best = cands ! i \<and> isrc_matches isrc (cands ! i)
          \<and> (\<forall>j<i. \<not> isrc_matches isrc (cands ! j)))" by auto
    with None no Cons show ?thesis by (auto simp: best_candidate_def)
  next
    case (Some t)
    then have ex: "\<exists>x\<in>set cands. isrc_matches isrc x"
      by (metis find_None_iff option.distinct(1))
    have "best = t \<longleftrightarrow> (\<exists>i<length cands. best = cands ! i \<and> isrc_matches isrc (cands ! i)
          \<and> (\<forall>j<i. \<not> isrc_matches isrc (cands ! j)))"
      using Some by (auto simp: find_Some_iff) (metis linorder_neqE_nat)+
    with Some ex Cons show ?thesis by (auto simp: best_candidate_def)
  qed
qed

lemma search_track_none:
  assumes "result (spotify_request_with_retries SPOTIFY_SEARCH_URL call) = Inr cands"
  shows "search_track isrc call = Inr None \<longleftrightarrow>
     cands = [] \<or> (\<exists>best. best_candidate isrc cands = Some best
                      \<and> (\<not> truthy (track_id best) \<or> \<not> truthy (album_id best)))"
  using assms
  by (auto simp: search_track_def best_candidate_def truthy_def split: option.splits list.splits)

lemma search_track_some:
  assumes "result (spotify_request_with_retries SPOTIFY_SEARCH_URL call) = Inr cands"
    and "search_track isrc call = Inr (Some (tid, aid, nm, ar))"
  shows "\<exists>best. best_candidate isrc cands = Some best \<and> track_id best = Some tid
           \<and> album_id best = Some aid \<and> nm = track_name best \<and> ar = artists_joined best"
  using assms
  by (auto simp: search_track_def split: option.splits if_splits)

text \<open>
  Claim C4, as the code has it. When the search returns the candidates \<open>cands\<close>, the
  selected candidate is the first one whose embedded code equals the queried code up to
  letter case, and the first candidate when there is none. The resolver returns
  \<^verbatim>\<open>None\<close> exactly when there is no candidate or the selected candidate lacks a track
  identifier or lacks an album identifier (a missing or empty one of the two is enough);
  otherwise it returns the two identifiers of the selected candidate.
\<close>

theorem search_track_policy:
  assumes "result (spotify_request_with_retries SPOTIFY_SEARCH_URL call) = Inr cands"
  shows "(\<forall>best. best_candidate isrc cands = Some best \<longleftrightarrow>
            cands \<noteq> [] \<and>
            ((\<exists>i<length cands. best = cands ! i \<and> isrc_matches isrc (cands ! i)
                 \<and> (\<forall>j<i. \<not> isrc_matches isrc (cands ! j)))
             \<or> ((\<forall>t\<in>set cands. \<not> isrc_matches isrc t) \<and> best = cands ! 0)))
       \<and> (search_track isrc call = Inr None \<longleftrightarrow>
            cands = [] \<or> (\<exists>best. best_candidate isrc cands = Some best
                      \<and> (\<not> truthy (track_id best) \<or> \<not> truthy (album_id best))))
       \<and> (\<forall>tid aid nm ar. search_track isrc call = Inr (Some (tid, aid, nm, ar)) \<longrightarrow>
            (\<exists>best. best_candidate isrc cands = Some best \<and> track_id best = Some tid
               \<and> album_id best = Some aid))"
proof (intro conjI allI impI)
  fix best
  show "best_candidate isrc cands = Some best \<longleftrightarrow>
            cands \<noteq> [] \<and>
            ((\<exists>i<length cands. best = cands ! i \<and> isrc_matches isrc (cands ! i)
                 \<and> (\<forall>j<i. \<not> isrc_matches isrc (cands ! j)))
             \<or> ((\<forall>t\<in>set cands. \<not> isrc_matches isrc t) \<and> best = cands ! 0))"
    by (rule best_candidate_policy)
next
  show "search_track isrc call = Inr None \<longleftrightarrow>
            cands = [] \<or> (\<exists>best. best_candidate isrc cands = Some best
                      \<and> (\<not> truthy (track_id best) \<or> \<not> truthy (album_id best)))"
    using assms by (rule search_track_none)
next
  fix tid aid nm ar
  assume "search_track isrc call = Inr (Some (tid, aid, nm, ar))"
  with assms show "\<exists>best. best_candidate isrc cands = Some best \<and> track_id best = Some tid
               \<and> album_id best = Some aid"
    using search_track_some by blast
qed

lemma executor_returns_first:
  "result (spotify_request_with_retries url (\<lambda>k. Returns r)) = Inr r"
  by (simp add: spotify_request_with_retries_def)

theorem search_track_policy_witness:
  "best_candidate ''ISRC123'' [cand_other, cand_exact] = Some cand_exact
   \<and> search_track ''ISRC123'' (\<lambda>k. Returns [cand_other, cand_exact]) \<noteq> Inr None"
proof -
  let ?call = "\<lambda>k::nat. Returns [cand_other, cand_exact]"
  have r: "result (spotify_request_with_retries SPOTIFY_SEARCH_URL ?call) = Inr [cand_other, cand_exact]"
    by (rule executor_returns_first)
  note p = search_track_policy [OF r, of "''ISRC123''"]
  have m0: "\<not> isrc_matches ''ISRC123'' cand_other" by code_simp
  have m1: "isrc_matches ''ISRC123'' cand_exact" by code_simp
  have "\<exists>i<length [cand_other, cand_exact]. cand_exact = [cand_other, cand_exact] ! i
          \<and> isrc_matches ''ISRC123'' ([cand_other, cand_exact] ! i)
          \<and> (\<forall>j<i. \<not> isrc_matches ''ISRC123'' ([cand_other, cand_exact] ! j))"
    using m0 m1 by (intro exI [of _ 1]) simp
  with p have b: "best_candidate ''ISRC123'' [cand_other, cand_exact] = Some cand_exact"
    by blast
  have t: "truthy (track_id cand_exact)" "truthy (album_id cand_exact)" by code_simp+
  from p b t have "search_track ''ISRC123'' ?call \<noteq> Inr None" by auto
  with b show ?thesis by simp
qed

text \<open>
  The claim as written fails: a selected candidate that has a track identifier and no
  album identifier does not lack both, and the resolver returns \<^verbatim>\<open>None\<close> for it.
\<close>

theorem search_track_lacks_both_counterexample:
  "\<not> (search_track ''ISRC123'' (\<lambda>k. Returns [cand_no_album]) = Inr None \<longleftrightarrow>
        ([cand_no_album] = []
         \<or> (\<not> truthy (track_id cand_no_album) \<and> \<not> truthy (album_id cand_no_album))))"
  by code_simp

section \<open>Properties of the metrics extractor\<close>

lemma foldl_digits_nonneg:
  "0 \<le> acc \<Longrightarrow> list_all digit_char s \<Longrightarrow>
     0 \<le> foldl (\<lambda>acc c. 10 * acc + (int (of_char c) - 48)) acc s"
  by (induction s arbitrary: acc) (auto simp: digit_char_def Let_def)

lemma digits_isdigit: "s \<noteq> [] \<Longrightarrow> list_all digit_char s \<Longrightarrow> isdigit s"
  by (simp add: isdigit_def list_all_iff)

lemma usable_count_value:
  "usable_count raw = Inr (Some n) \<longleftrightarrow>
     (raw = JInt n \<and> 0 < n)
     \<or> (\<exists>s. raw = JStr s \<and> s \<noteq> [] \<and> list_all digit_char s
            \<and> length s \<le> int_max_str_digits \<and> n = int_of_digits s)"
proof (cases raw)
  case (JStr s)
  then show ?thesis
    using digits_isdigit [of s] by (auto simp: int_of_text_def)
qed auto

lemma usable_count_raises:
  "usable_count raw = Inl e \<longleftrightarrow>
     e = ValueError
     \<and> (\<exists>s. raw = JStr s \<and> isdigit s
            \<and> (\<not> list_all digit_char s \<or> int_max_str_digits < length s))"
proof (cases raw)
  case (JStr s)
  then show ?thesis
    by (auto simp: int_of_text_def isdigit_def)
qed auto

lemma usable_count_nonneg: "usable_count raw = Inr (Some n) \<Longrightarrow> 0 \<le> n"
  unfolding usable_count_value
  by (auto simp: int_of_digits_def foldl_digits_nonneg)

lemma fetch_album_exhausted:
  assumes "\<forall>k<3. \<exists>e. call k = RaisesRequest e"
  shows "fetch_album call = Inr empty_json"
proof -
  from assms have "\<exists>e. call 0 = RaisesRequest e" "\<exists>e. call 1 = RaisesRequest e"
    "\<exists>e. call 2 = RaisesRequest e" by simp_all
  then obtain e0 e1 e2 where
    "call 0 = RaisesRequest e0" "call 1 = RaisesRequest e1" "call 2 = RaisesRequest e2"
    by blast
  then show ?thesis
    by (simp add: fetch_album_def spotify_request_with_retries_def)
qed

lemma extract_empty: "extract_playcount tid empty_json = Inr None"
  by (simp add: extract_playcount_def tracks_data_def get_in_def empty_json_def)

text \<open>
  Claim C5: the extractor is to yield the counter of the entry with the target URI
  whenever that counter is present and a valid non-negative integer, zero included, and
  "no metric available", never an error, on every other shape. The code does not. On a
  response whose entry for the resolved track carries the counter as the number 0, the
  guard \<^verbatim>\<open>if raw and str(raw).isdigit()\<close> is false: no counter is extracted, the track
  gives "no metric available" and no row is written, while the same response with the
  text \<^verbatim>\<open>"0"\<close> in that place gives the counter 0. Two further shapes raise, and the
  loop counts the track as an error: a response whose \<^verbatim>\<open>albumUnion\<close> is \<^verbatim>\<open>null\<close>
  (\<^verbatim>\<open>AttributeError\<close> in the chain of \<^verbatim>\<open>get\<close>), and a counter that is the text of a
  superscript two, which \<^verbatim>\<open>str.isdigit\<close> accepts and \<^verbatim>\<open>int\<close> refuses
  (\<^verbatim>\<open>ValueError\<close>).
\<close>

theorem extract_playcount_drops_zero:
  "extract_playcount ''t1'' album_zero = Inr None
   \<and> collect_track world_number_zero (song ''a'') = NoMetric
   \<and> stream_rows world_number_zero 99 ''user1'' catalogue1 = []
   \<and> extract_playcount ''t1'' album_text_zero = Inr (Some 0)
   \<and> collect_track world_zero (song ''a'') = Metric 0
   \<and> extract_playcount ''t1'' album_null_union = Inl AttributeError
   \<and> collect_track world_null_union (song ''a'') = Failed AttributeError
   \<and> extract_playcount ''t1'' album_superscript = Inl ValueError
   \<and> collect_track world_superscript (song ''a'') = Failed ValueError"
proof -
  have resolved: "search_track (track_isrc (song ''a'')) (\<lambda>k. Returns [cand_other, cand_exact])
      = Inr (Some (''t1'', ''a1'', Some ''Song'', Some ''A & B''))"
    by code_simp
  have number_zero: "extract_playcount ''t1'' album_zero = Inr None"
    by (simp add: extract_playcount_def tracks_data_def get_in_def album_zero_def album_of_def
        album_entry_def track_uri_def)
  have text_zero: "extract_playcount ''t1'' album_text_zero = Inr (Some 0)"
    by code_simp
  have null_union: "extract_playcount ''t1'' album_null_union = Inl AttributeError"
    by (simp add: extract_playcount_def tracks_data_def get_in_def album_null_union_def)
  have superscript: "extract_playcount ''t1'' album_superscript = Inl ValueError"
    by code_simp
  have fetched: "fetch_album (\<lambda>k. Returns album_zero) = Inr album_zero"
    "fetch_album (\<lambda>k. Returns album_text_zero) = Inr album_text_zero"
    "fetch_album (\<lambda>k. Returns album_null_union) = Inr album_null_union"
    "fetch_album (\<lambda>k. Returns album_superscript) = Inr album_superscript"
    by (simp_all add: fetch_album_def spotify_request_with_retries_def album_zero_def
        album_text_zero_def album_null_union_def album_superscript_def album_of_def)
  have dropped: "collect_track world_number_zero (song ''a'') = NoMetric"
    by (simp add: collect_track_def world_number_zero_def world_ok_def resolved fetched number_zero)
  have stored: "collect_track world_zero (song ''a'') = Metric 0"
    by (simp add: collect_track_def world_zero_def world_ok_def resolved fetched text_zero)
  have raised_null: "collect_track world_null_union (song ''a'') = Failed AttributeError"
    by (simp add: collect_track_def world_null_union_def world_ok_def resolved fetched null_union)
  have raised_text: "collect_track world_superscript (song ''a'') = Failed ValueError"
    by (simp add: collect_track_def world_superscript_def world_ok_def resolved fetched superscript)
  have no_row: "stream_rows world_number_zero 99 ''user1'' catalogue1 = []"
    by (simp add: stream_rows_def track_rows_def catalogue1_def dropped)
  from number_zero dropped no_row text_zero stored null_union raised_null superscript raised_text
  show ?thesis by (intro conjI)
qed

section \<open>Properties of the similarity matcher\<close>

lemma foldl_better_match_stable:
  assumes "\<forall>c\<in>set cs. common_prefix (drop (fst c) a) (drop (snd c) b) \<le> snd (snd best)"
  shows "foldl (better_match a b) best cs = best"
  using assms by (induction cs) (auto simp: better_match_def Let_def)

lemma common_prefix_same: "common_prefix xs xs = length xs"
  by (induction xs) auto

lemma find_longest_match_same:
  assumes "x \<noteq> []"
  shows "find_longest_match x x = (0, 0, length x)"
proof -
  from assms have n: "0 < length x" by simp
  then have u: "[0..<length x] = 0 # [1..<length x]" by (simp add: upt_conv_Cons)
  have "List.product [0..<length x] [0..<length x]
          = List.product (0 # [1..<length x]) (0 # [1..<length x])"
    using u by simp
  then obtain rest where p: "List.product [0..<length x] [0..<length x] = (0, 0) # rest"
    by simp
  have s: "better_match x x (0, 0, 0) (0, 0) = (0, 0, length x)"
    using n by (simp add: better_match_def common_prefix_same)
  have "\<forall>c\<in>set rest.
          common_prefix (drop (fst c) x) (drop (snd c) x) \<le> snd (snd (0::nat, 0::nat, length x))"
  proof
    fix c
    have "common_prefix (drop (fst c) x) (drop (snd c) x) \<le> length (drop (fst c) x)"
      using common_prefix_le by blast
    then show "common_prefix (drop (fst c) x) (drop (snd c) x) \<le> snd (snd (0::nat, 0::nat, length x))"
      by simp
  qed
  from foldl_better_match_stable [OF this] p s show ?thesis
    by (simp add: find_longest_match_def)
qed

lemma matches_Nil: "matches [] b = 0"
  by (simp add: matches.simps find_longest_match_def)

lemma matches_same: "matches x x = length x"
proof (cases "x = []")
  case True
  then show ?thesis by (simp add: matches_Nil)
next
  case False
  then show ?thesis
    by (subst matches.simps) (simp add: find_longest_match_same matches_Nil)
qed

lemma matches_le: "matches a b \<le> length a \<and> matches a b \<le> length b"
proof (induction a b rule: matches.induct)
  case (1 a b)
  obtain i j k where f: "find_longest_match a b = (i, j, k)" by (cases "find_longest_match a b")
  note bd = find_longest_match_bounds [OF f]
  show ?case
  proof (cases "k = 0")
    case True
    with f show ?thesis by (subst matches.simps, subst matches.simps) simp
  next
    case False
    have l: "matches (take i a) (take j b) \<le> i \<and> matches (take i a) (take j b) \<le> j"
      using "1.IH"(1) [OF f [symmetric] refl False] bd by simp
    have r: "matches (drop (i + k) a) (drop (j + k) b) \<le> length a - (i + k)
           \<and> matches (drop (i + k) a) (drop (j + k) b) \<le> length b - (j + k)"
      using "1.IH"(2) [OF f [symmetric] refl False] by simp
    have "matches a b = matches (take i a) (take j b) + k + matches (drop (i + k) a) (drop (j + k) b)"
      using f False by (subst matches.simps) simp
    with l r bd show ?thesis by linarith
  qed
qed

lemma ratio_range: "0 \<le> ratio a b \<and> ratio a b \<le> 1"
proof -
  have "2 * matches a b \<le> length a + length b" using matches_le [of a b] by linarith
  then have "2 * real (matches a b) \<le> real (length a + length b)"
    by (metis of_nat_le_iff of_nat_mult of_nat_numeral)
  then show ?thesis by (simp add: ratio_def divide_le_eq)
qed

lemma ratio_same: "x \<noteq> [] \<Longrightarrow> ratio x x = 1"
  by (simp add: ratio_def matches_same)

lemma lower_Nil_iff: "lower a = [] \<longleftrightarrow> a = []"
  by (simp add: lower_def)

text \<open>
  Claim C9. The similarity of any two strings lies between 0 and 1; it is 0 when either
  string is empty; and it is 1 for two non-empty strings that are equal up to letter
  case, that is, whose lower-case forms are the same.
\<close>

theorem similar_contract:
  "0 \<le> similar a b \<and> similar a b \<le> 1
   \<and> (a = [] \<or> b = [] \<longrightarrow> similar a b = 0)
   \<and> (a \<noteq> [] \<and> lower a = lower b \<longrightarrow> similar a b = 1)"
proof (intro conjI impI)
  show "0 \<le> similar a b" using ratio_range [of "lower a" "lower b"] by (simp add: similar_def)
  show "similar a b \<le> 1" using ratio_range [of "lower a" "lower b"] by (simp add: similar_def)
  show "similar a b = 0" if "a = [] \<or> b = []" using that by (auto simp: similar_def)
  show "similar a b = 1" if h: "a \<noteq> [] \<and> lower a = lower b"
  proof -
    from h have "lower b \<noteq> []" using lower_Nil_iff [of a] by auto
    then have "b \<noteq> []" by (simp add: lower_Nil_iff)
    with h show ?thesis using ratio_same [of "lower a"] by (simp add: similar_def lower_Nil_iff)
  qed
qed

theorem similar_contract_witness:
  "similar ''Hey Jude'' ''HEY jude'' = 1 \<and> similar [] ''anything'' = 0"
proof -
  have l: "''Hey Jude'' \<noteq> [] \<and> lower ''Hey Jude'' = lower ''HEY jude''" by code_simp
  have e: "[] = [] \<or> ''anything'' = []" by simp
  from similar_contract [of "''Hey Jude''" "''HEY jude''"] l
  have "similar ''Hey Jude'' ''HEY jude'' = 1" by blast
  moreover from similar_contract [of "[]" "''anything''"] e
  have "similar [] ''anything'' = 0" by blast
  ultimately show ?thesis by simp
qed

section \<open>Properties of the Catalog A check\<close>

lemma apple_attempts_step:
  assumes "attempt < 2"
  shows "apple_attempts artist title call (attempt # rest) = Inr True \<longleftrightarrow>
     (\<exists>rs. call attempt = Returns (Results rs) \<and> (\<exists>r\<in>set rs. apple_result_matches artist title r))
     \<or> ((call attempt = Returns Forbidden \<or> (\<exists>e. call attempt = RaisesRequest e))
         \<and> apple_attempts artist title call rest = Inr True)"
  using assms by (auto split: outcome.splits apple_reply.splits simp: list_ex_iff)

lemma apple_attempts_last:
  "apple_attempts artist title call [2] = Inr True \<longleftrightarrow>
     (\<exists>rs. call 2 = Returns (Results rs) \<and> (\<exists>r\<in>set rs. apple_result_matches artist title r))"
  by (auto split: outcome.splits apple_reply.splits simp: list_ex_iff)

lemma ex_less_three: "(\<exists>k<3. Q k) \<longleftrightarrow> Q (0::nat) \<or> Q 1 \<or> Q 2"
proof -
  have "\<And>k::nat. k < 3 \<longleftrightarrow> k = 0 \<or> k = 1 \<or> k = 2" by linarith
  then show ?thesis by auto
qed

lemma all_less_one: "(\<forall>j<1. Q j) \<longleftrightarrow> Q (0::nat)"
  by simp

lemma all_less_two: "(\<forall>j<2. Q j) \<longleftrightarrow> Q (0::nat) \<and> Q 1"
proof -
  have "\<And>j::nat. j < 2 \<longleftrightarrow> j = 0 \<or> j = 1" by linarith
  then show ?thesis by auto
qed

lemma check_apple_present_iff:
  "check_apple_music_api artist title call = Inr True \<longleftrightarrow>
     (\<exists>k<3. \<exists>rs. call k = Returns (Results rs)
        \<and> (\<forall>j<k. call j = Returns Forbidden \<or> (\<exists>e. call j = RaisesRequest e))
        \<and> (\<exists>r\<in>set rs. apple_result_matches artist title r))"
proof -
  have "check_apple_music_api artist title call = Inr True \<longleftrightarrow>
      (\<exists>rs. call 0 = Returns (Results rs) \<and> (\<exists>r\<in>set rs. apple_result_matches artist title r))
      \<or> ((call 0 = Returns Forbidden \<or> (\<exists>e. call 0 = RaisesRequest e))
          \<and> ((\<exists>rs. call 1 = Returns (Results rs) \<and> (\<exists>r\<in>set rs. apple_result_matches artist title r))
              \<or> ((call 1 = Returns Forbidden \<or> (\<exists>e. call 1 = RaisesRequest e))
                  \<and> (\<exists>rs. call 2 = Returns (Results rs)
                        \<and> (\<exists>r\<in>set rs. apple_result_matches artist title r)))))"
    unfolding check_apple_music_api_def
    by (subst apple_attempts_step, simp, subst apple_attempts_step, simp,
        subst apple_attempts_last, rule refl)
  also have "\<dots> \<longleftrightarrow> (\<exists>k<3. \<exists>rs. call k = Returns (Results rs)
        \<and> (\<forall>j<k. call j = Returns Forbidden \<or> (\<exists>e. call j = RaisesRequest e))
        \<and> (\<exists>r\<in>set rs. apple_result_matches artist title r))"
    unfolding ex_less_three all_less_one all_less_two by auto
  finally show ?thesis .
qed

text \<open>
  Claim C8. The Catalog A check reports a track present exactly when an attempt within
  the three is answered (every earlier attempt having been rate limited or having raised
  a request exception) and some result of that answer has artist similarity at least 0.85
  and track-title or album-title similarity at least 0.85. In particular artist 0.9 with
  title 0.80 and album 0.90 is a match, and artist similarity 0.80 is not, whatever the
  title similarities are.
\<close>

theorem apple_match_policy:
  "(check_apple_music_api artist title call = Inr True \<longleftrightarrow>
     (\<exists>k<3. \<exists>rs. call k = Returns (Results rs)
        \<and> (\<forall>j<k. call j = Returns Forbidden \<or> (\<exists>e. call j = RaisesRequest e))
        \<and> (\<exists>r\<in>set rs. apple_result_matches artist title r)))
   \<and> (apple_result_matches artist title r \<longleftrightarrow>
        85 / 100 \<le> similar (artistName r) artist
        \<and> (85 / 100 \<le> similar (trackName r) title \<or> 85 / 100 \<le> similar (collectionName r) title))
   \<and> (similar (artistName r) artist = 9 / 10 \<and> similar (trackName r) title = 8 / 10
        \<and> similar (collectionName r) title = 9 / 10 \<longrightarrow> apple_result_matches artist title r)
   \<and> (similar (artistName r) artist = 8 / 10 \<longrightarrow> \<not> apple_result_matches artist title r)"
proof (intro conjI impI)
  show "check_apple_music_api artist title call = Inr True \<longleftrightarrow>
     (\<exists>k<3. \<exists>rs. call k = Returns (Results rs)
        \<and> (\<forall>j<k. call j = Returns Forbidden \<or> (\<exists>e. call j = RaisesRequest e))
        \<and> (\<exists>r\<in>set rs. apple_result_matches artist title r))"
    by (rule check_apple_present_iff)
  show "apple_result_matches artist title r \<longleftrightarrow>
        85 / 100 \<le> similar (artistName r) artist
        \<and> (85 / 100 \<le> similar (trackName r) title \<or> 85 / 100 \<le> similar (collectionName r) title)"
    by (simp add: apple_result_matches_def)
  show "apple_result_matches artist title r"
    if "similar (artistName r) artist = 9 / 10 \<and> similar (trackName r) title = 8 / 10
        \<and> similar (collectionName r) title = 9 / 10"
    using that by (simp add: apple_result_matches_def)
  show "\<not> apple_result_matches artist title r" if "similar (artistName r) artist = 8 / 10"
    using that by (simp add: apple_result_matches_def)
qed

theorem apple_match_policy_witness:
  "apple_result_matches ''klmnopqrst'' ''abcdefghij'' apple_album_hit
   \<and> \<not> apple_result_matches ''klmnopqrst'' ''abcdefghij'' apple_weak_artist
   \<and> check_apple_music_api ''klmnopqrst'' ''abcdefghij''
        (\<lambda>k. if k = 0 then Returns Forbidden
              else Returns (Results [apple_weak_artist, apple_album_hit])) = Inr True"
proof -
  let ?call = "\<lambda>k::nat. if k = 0 then Returns Forbidden
              else Returns (Results [apple_weak_artist, apple_album_hit])"
  have s: "similar (artistName apple_album_hit) ''klmnopqrst'' = 9 / 10
      \<and> similar (trackName apple_album_hit) ''abcdefghij'' = 8 / 10
      \<and> similar (collectionName apple_album_hit) ''abcdefghij'' = 9 / 10"
    by code_simp
  have hit: "apple_result_matches ''klmnopqrst'' ''abcdefghij'' apple_album_hit"
    using apple_match_policy [of "''klmnopqrst''" "''abcdefghij''" ?call apple_album_hit] s
    by blast
  have w: "similar (artistName apple_weak_artist) ''klmnopqrst'' = 8 / 10" by code_simp
  have miss: "\<not> apple_result_matches ''klmnopqrst'' ''abcdefghij'' apple_weak_artist"
    using apple_match_policy [of "''klmnopqrst''" "''abcdefghij''" ?call apple_weak_artist] w
    by blast
  have "\<exists>k<3. \<exists>rs. ?call k = Returns (Results rs)
        \<and> (\<forall>j<k. ?call j = Returns Forbidden \<or> (\<exists>e. ?call j = RaisesRequest e))
        \<and> (\<exists>r\<in>set rs. apple_result_matches ''klmnopqrst'' ''abcdefghij'' r)"
    using hit by (intro exI [of _ 1]) simp
  then have "check_apple_music_api ''klmnopqrst'' ''abcdefghij'' ?call = Inr True"
    using apple_match_policy [of "''klmnopqrst''" "''abcdefghij''" ?call apple_album_hit,
        THEN conjunct1]
    by (rule iffD2 [rotated])
  with hit miss show ?thesis by simp
qed

section \<open>Properties of the keyed upsert\<close>

lemma upsert_key_map:
  assumes K: "\<And>r w. key (oc r w) = key r"
  shows "map key (upsert key oc w T) =
           (if key w \<in> set (map key T) then map key T else map key T @ [key w])"
proof -
  have m: "map key (map (\<lambda>r. if key r = key w then oc r w else r) T) = map key T"
    by (induction T) (simp_all add: K)
  show ?thesis
  proof (cases "key w \<in> set (map key T)")
    case True
    then have "list_ex (\<lambda>r. key r = key w) T" by (auto simp: list_ex_iff)
    with True m show ?thesis by (simp add: upsert_def)
  next
    case False
    then have "\<forall>r\<in>set T. key r \<noteq> key w" by (metis image_eqI set_map)
    then have "\<not> list_ex (\<lambda>r. key r = key w) T" by (simp add: list_ex_iff)
    with False show ?thesis by (simp add: upsert_def)
  qed
qed

lemma upsert_distinct:
  assumes K: "\<And>r w. key (oc r w) = key r" and "distinct (map key T)"
  shows "distinct (map key (upsert key oc w T))"
  using assms(2) by (simp add: upsert_key_map [of key oc, OF K])

lemma foldl_upsert_distinct:
  assumes K: "\<And>r w. key (oc r w) = key r" and "distinct (map key T)"
  shows "distinct (map key (foldl (\<lambda>X r. upsert key oc r X) T ws))"
  using assms(2)
proof (induction ws arbitrary: T)
  case Nil
  then show ?case by simp
next
  case (Cons w ws)
  from Cons.prems have "distinct (map key (upsert key oc w T))"
    by (rule upsert_distinct [of key oc, OF K])
  from Cons.IH [OF this] show ?case by simp
qed

lemma foldl_upsert_keys:
  assumes K: "\<And>r w. key (oc r w) = key r"
  shows "set (map key (foldl (\<lambda>X r. upsert key oc r X) T ws)) = set (map key T) \<union> set (map key ws)"
proof (induction ws arbitrary: T)
  case Nil
  then show ?case by simp
next
  case (Cons w ws)
  have "set (map key (upsert key oc w T)) = insert (key w) (set (map key T))"
    by (auto simp: upsert_key_map [of key oc, OF K])
  with Cons.IH [of "upsert key oc w T"] show ?case by auto
qed

lemma upsert_member:
  assumes "r \<in> set (upsert key oc w T)"
  shows "(\<exists>r0\<in>set T. key r0 = key w \<and> r = oc r0 w)
       \<or> (r \<in> set T \<and> key r \<noteq> key w)
       \<or> (r = w \<and> key w \<notin> set (map key T))"
  using assms by (auto simp: upsert_def list_ex_iff split: if_splits)

lemma foldl_upsert_last_val:
  assumes K: "\<And>r w. key (oc r w) = key r" and V: "\<And>r w. val (oc r w) = val w"
    and "r \<in> set (foldl (\<lambda>X r. upsert key oc r X) T ws)"
    and "find (\<lambda>w. key w = key r) (rev ws) = Some w"
  shows "val r = val w"
  using assms(3,4)
proof (induction ws arbitrary: r w rule: rev_induct)
  case Nil
  then show ?case by simp
next
  case (snoc x ws)
  let ?T = "foldl (\<lambda>X r. upsert key oc r X) T ws"
  from snoc.prems(1) have m: "r \<in> set (upsert key oc x ?T)" by simp
  from upsert_member [OF m] consider
    (upd) r0 where "r0 \<in> set ?T" "key r0 = key x" "r = oc r0 x"
    | (old) "r \<in> set ?T" "key r \<noteq> key x"
    | (new) "r = x"
    by blast
  then show ?case
  proof cases
    case upd
    then have "key r = key x" by (simp add: K)
    with snoc.prems(2) have "w = x" by simp
    with upd show ?thesis by (simp add: V)
  next
    case old
    with snoc.prems(2) have "find (\<lambda>w. key w = key r) (rev ws) = Some w" by auto
    with old(1) show ?thesis by (rule snoc.IH)
  next
    case new
    with snoc.prems(2) show ?thesis by simp
  qed
qed

lemma distinct_key_single:
  assumes "distinct (map key T)" "k \<in> set (map key T)"
  shows "\<exists>r. filter (\<lambda>r. key r = k) T = [r]"
  using assms
proof (induction T)
  case Nil
  then show ?case by simp
next
  case (Cons a T)
  show ?case
  proof (cases "key a = k")
    case True
    with Cons.prems(1) have "filter (\<lambda>r. key r = k) T = []"
      by (auto simp: filter_empty_conv image_iff)
    with True show ?thesis by simp
  next
    case False
    with Cons show ?thesis by auto
  qed
qed

section \<open>Properties of the metrics loop\<close>

lemma streams_step_fields:
  "committed (stream_conn (streams_step env day uid st trk)) = committed (stream_conn st)"
  "working (stream_conn (streams_step env day uid st trk)) =
     foldl (\<lambda>X r. upsert_stream r X) (working (stream_conn st)) (track_rows env day uid trk)"
  "processed (streams_step env day uid st trk) = processed st + length (track_rows env day uid trk)"
  "errors (streams_step env day uid st trk) = errors st + (if is_failed (collect_track env trk) then 1 else 0)"
  "total_playcount (streams_step env day uid st trk) =
     total_playcount st + sum_list (map stream_playcount (track_rows env day uid trk))"
  by (simp_all add: streams_step_def track_rows_def is_failed_def new_stream_row_def
      split: collected.splits)

lemma streams_loop_committed:
  "committed (stream_conn (foldl (streams_step env day uid) st trks)) = committed (stream_conn st)"
  by (induction trks arbitrary: st) (simp_all add: streams_step_fields)

lemma streams_loop_working:
  "working (stream_conn (foldl (streams_step env day uid) st trks)) =
       foldl (\<lambda>X r. upsert_stream r X) (working (stream_conn st)) (stream_rows env day uid trks)"
  by (induction trks arbitrary: st) (simp_all add: streams_step_fields stream_rows_def)

lemma streams_loop_processed:
  "processed (foldl (streams_step env day uid) st trks) = processed st + length (stream_rows env day uid trks)"
  by (induction trks arbitrary: st) (simp_all add: streams_step_fields stream_rows_def)

lemma streams_loop_errors:
  "errors (foldl (streams_step env day uid) st trks) =
       errors st + length (filter (\<lambda>t. is_failed (collect_track env t)) trks)"
  by (induction trks arbitrary: st) (simp_all add: streams_step_fields)

lemma streams_loop_total:
  "total_playcount (foldl (streams_step env day uid) st trks) =
       total_playcount st + sum_list (map stream_playcount (stream_rows env day uid trks))"
  by (induction trks arbitrary: st) (simp_all add: streams_step_fields stream_rows_def)

section \<open>Properties of the metrics run\<close>

lemma run_streams_raised_iff:
  "raised (run_streams_collection env track_dim tbl today uid ov) = None \<longleftrightarrow>
     (\<exists>tok. get_spotify_token env = Inr tok) \<and> (\<exists>w. sniff_tokens env = Inr w)
     \<and> db_conn env = None \<and> refresh_view env = None"
  by (auto simp: run_streams_collection_def streams_fatal_def Let_def
      split: sum.splits option.splits)

lemma run_streams_completed:
  assumes "raised (run_streams_collection env track_dim tbl today uid ov) = None"
  shows "final (run_streams_collection env track_dim tbl today uid ov) =
           (let st = foldl (streams_step env (day_of today ov) uid) (streams_start tbl)
                      (user_tracks uid track_dim)
            in st\<lparr>stream_conn := commit (commit (stream_conn st))\<rparr>)"
    and "alerts (run_streams_collection env track_dim tbl today uid ov) =
           (if 0 < processed (final (run_streams_collection env track_dim tbl today uid ov))
               \<and> total_playcount (final (run_streams_collection env track_dim tbl today uid ov)) = 0
            then [ZeroStreamsAlert (day_of today ov)] else [])"
  using assms
  by (auto simp: run_streams_collection_def streams_fatal_def Let_def
      split: sum.splits option.splits)

lemma run_streams_failed_alerts:
  assumes "raised (run_streams_collection env track_dim tbl today uid ov) = Some e"
  shows "alerts (run_streams_collection env track_dim tbl today uid ov) = [ErrorAlert e]"
  using assms
  by (auto simp: run_streams_collection_def streams_fatal_def Let_def
      split: sum.splits option.splits)

lemma run_streams_table:
  assumes "raised (run_streams_collection env track_dim tbl today uid ov) = None"
  shows "committed (stream_conn (final (run_streams_collection env track_dim tbl today uid ov))) =
           foldl (\<lambda>X r. upsert_stream r X) tbl
             (stream_rows env (day_of today ov) uid (user_tracks uid track_dim))"
    and "processed (final (run_streams_collection env track_dim tbl today uid ov)) =
           length (stream_rows env (day_of today ov) uid (user_tracks uid track_dim))"
    and "errors (final (run_streams_collection env track_dim tbl today uid ov)) =
           length (filter (\<lambda>t. is_failed (collect_track env t)) (user_tracks uid track_dim))"
    and "total_playcount (final (run_streams_collection env track_dim tbl today uid ov)) =
           sum_list (map stream_playcount
             (stream_rows env (day_of today ov) uid (user_tracks uid track_dim)))"
  unfolding run_streams_completed(1) [OF assms]
  by (simp_all add: Let_def commit_def connect_def streams_start_def streams_loop_working
      streams_loop_processed streams_loop_errors streams_loop_total)

section \<open>Properties of the availability loop\<close>

lemma health_store_fields:
  "working (health_conn (health_store d now uid st row)) = upsert_health now row (working (health_conn st))"
  "checked_count (health_store d now uid st row) = checked_count st + 1"
  "health_errors (health_store d now uid st row) = health_errors st"
  "committed (health_conn (health_store d now uid st row)) =
     (if (checked_count st + 1) mod 10 = 0 then upsert_health now row (working (health_conn st))
      else committed (health_conn st))"
  by (simp_all add: health_store_def Let_def commit_def)

lemma health_fold_working:
  "working (health_conn (foldl (health_store d now uid) st rows)) =
     foldl (\<lambda>X r. upsert_health now r X) (working (health_conn st)) rows"
  by (induction rows arbitrary: st) (simp_all add: health_store_fields)

lemma health_fold_count:
  "checked_count (foldl (health_store d now uid) st rows) = checked_count st + length rows"
  by (induction rows arbitrary: st) (simp_all add: health_store_fields)

lemma health_fold_errors:
  "health_errors (foldl (health_store d now uid) st rows) = health_errors st"
  by (induction rows arbitrary: st) (simp_all add: health_store_fields)

lemma batch_boundary:
  "Suc n mod 10 \<noteq> 0 \<Longrightarrow> Suc n - Suc n mod 10 = n - n mod 10"
  by (simp add: mod_Suc split: if_splits)

lemma health_fold_committed:
  assumes "checked_count st = 0" "committed (health_conn st) = working (health_conn st)"
  shows "committed (health_conn (foldl (health_store d now uid) st rows)) =
     foldl (\<lambda>X r. upsert_health now r X) (working (health_conn st))
       (take (length rows - length rows mod 10) rows)"
proof (induction rows rule: rev_induct)
  case Nil
  then show ?case using assms by simp
next
  case (snoc x rows)
  let ?S = "foldl (health_store d now uid) st rows"
  have c: "checked_count ?S = length rows" using assms(1) by (simp add: health_fold_count)
  have w: "working (health_conn ?S) = foldl (\<lambda>X r. upsert_health now r X) (working (health_conn st)) rows"
    by (rule health_fold_working)
  show ?case
  proof (cases "Suc (length rows) mod 10 = 0")
    case True
    then show ?thesis using c w by (simp add: health_store_fields)
  next
    case False
    have "length rows - length rows mod 10 \<le> length rows" by simp
    then have "take (Suc (length rows) - Suc (length rows) mod 10) (rows @ [x])
        = take (length rows - length rows mod 10) rows"
      using batch_boundary [OF False] by simp
    with False snoc.IH c show ?thesis by (simp add: health_store_fields)
  qed
qed

lemma health_rows_Cons:
  "health_rows env d uid (trk # trks) = check_rows env d uid trk @ health_rows env d uid trks"
  by (simp add: health_rows_def)

lemma health_rows_append:
  "health_rows env d uid (pre @ post) = health_rows env d uid pre @ health_rows env d uid post"
  by (simp add: health_rows_def)

lemma health_loop_crash_free:
  assumes "\<forall>t\<in>set trks. \<not> is_crashed (check_track env t)"
  shows "health_loop env d now uid (trks @ rest) st =
           health_loop env d now uid rest (foldl (health_store d now uid) st (health_rows env d uid trks))"
  using assms
proof (induction trks arbitrary: st)
  case Nil
  then show ?case by (simp add: health_rows_def)
next
  case (Cons trk trks)
  then show ?case
    by (cases "check_track env trk")
       (simp_all add: health_rows_Cons check_rows_def is_crashed_def)
qed

lemma health_loop_complete:
  assumes "\<forall>t\<in>set trks. \<not> is_crashed (check_track env t)"
  shows "health_loop env d now uid trks st =
           (foldl (health_store d now uid) st (health_rows env d uid trks), None)"
  using health_loop_crash_free [OF assms, of d now uid "[]" st] by simp

lemma health_loop_crash:
  assumes "\<forall>t\<in>set pre. \<not> is_crashed (check_track env t)" "check_track env trk = Crashed e"
  shows "health_loop env d now uid (pre @ trk # rest) st =
           (foldl (health_store d now uid) st (health_rows env d uid pre), Some e)"
  using health_loop_crash_free [OF assms(1), of d now uid "trk # rest" st] assms(2) by simp

section \<open>Properties of the availability run\<close>

lemma run_health_complete:
  assumes "db_conn env = None" "\<forall>t\<in>set (user_tracks uid track_dim). \<not> is_crashed (check_track env t)"
  shows "health_raised (run_catalogue_health_check env track_dim tbl today now uid) = None"
    and "committed (health_conn (health_final (run_catalogue_health_check env track_dim tbl today now uid))) =
           foldl (\<lambda>X r. upsert_health now r X) tbl (health_rows env today uid (user_tracks uid track_dim))"
    and "checked_count (health_final (run_catalogue_health_check env track_dim tbl today now uid)) =
           length (health_rows env today uid (user_tracks uid track_dim))"
  using assms(1)
  by (simp_all add: run_catalogue_health_check_def health_loop_complete [OF assms(2)] Let_def
      commit_def connect_def health_start_def health_fold_working health_fold_count)

lemma run_health_crash:
  assumes "db_conn env = None" "user_tracks uid track_dim = pre @ trk # rest"
    "\<forall>t\<in>set pre. \<not> is_crashed (check_track env t)" "check_track env trk = Crashed e"
  shows "health_raised (run_catalogue_health_check env track_dim tbl today now uid) = Some e"
    and "committed (health_conn (health_final (run_catalogue_health_check env track_dim tbl today now uid))) =
           foldl (\<lambda>X r. upsert_health now r X) tbl
             (take (length (health_rows env today uid pre) - length (health_rows env today uid pre) mod 10)
                (health_rows env today uid pre))"
  using assms(1,2)
  by (simp_all add: run_catalogue_health_check_def health_loop_crash [OF assms(3,4)] Let_def
      rollback_def connect_def health_start_def health_fold_committed)

lemma run_health_raised_iff:
  "health_raised (run_catalogue_health_check env track_dim tbl today now uid) = None \<longleftrightarrow>
     db_conn env = None \<and> (\<forall>t\<in>set (user_tracks uid track_dim). \<not> is_crashed (check_track env t))"
proof (cases "db_conn env")
  case (Some e)
  then show ?thesis by (simp add: run_catalogue_health_check_def Let_def)
next
  case None
  show ?thesis
  proof (cases "\<forall>t\<in>set (user_tracks uid track_dim). \<not> is_crashed (check_track env t)")
    case True
    with None run_health_complete(1) [OF None True] show ?thesis by simp
  next
    case False
    then obtain pre trk rest where s: "user_tracks uid track_dim = pre @ trk # rest"
      "is_crashed (check_track env trk)" "\<forall>t\<in>set pre. \<not> is_crashed (check_track env t)"
      using split_list_first_prop [of "user_tracks uid track_dim" "\<lambda>t. is_crashed (check_track env t)"]
      by blast
    from s(2) obtain e where "check_track env trk = Crashed e"
      by (cases "check_track env trk") (simp_all add: is_crashed_def)
    from run_health_crash(1) [OF None s(1) s(3) this] False show ?thesis by simp
  qed
qed

section \<open>The anomaly alert\<close>

text \<open>
  Claim C7, as the code has it. The zero-streams alert is sent exactly when the run
  reaches its end without raising (the view refresh included), has stored at least one
  counter and the counters stored in this run add up to zero. A run that ends normally has
  stored exactly the rows of its loop, has counted them, and has added up their counters,
  whether the alert was sent or not: the alert changes neither the rows nor the outcome.
\<close>

theorem zero_streams_alert_rule:
  assumes "r = run_streams_collection env track_dim tbl today uid ov"
    and "rows = stream_rows env (day_of today ov) uid (user_tracks uid track_dim)"
  shows "(ZeroStreamsAlert d \<in> set (alerts r) \<longleftrightarrow>
            raised r = None \<and> d = day_of today ov \<and> 0 < processed (final r)
            \<and> total_playcount (final r) = 0)
       \<and> (raised r = None \<longrightarrow>
            committed (stream_conn (final r)) = foldl (\<lambda>X w. upsert_stream w X) tbl rows
            \<and> processed (final r) = length rows
            \<and> total_playcount (final r) = sum_list (map stream_playcount rows))"
proof (intro conjI impI)
  show "ZeroStreamsAlert d \<in> set (alerts r) \<longleftrightarrow>
            raised r = None \<and> d = day_of today ov \<and> 0 < processed (final r)
            \<and> total_playcount (final r) = 0"
  proof (cases "raised r")
    case None
    then show ?thesis
      using run_streams_completed(2) [of env track_dim tbl today uid ov] assms(1) by auto
  next
    case (Some e)
    then show ?thesis
      using run_streams_failed_alerts [of env track_dim tbl today uid ov e] assms(1) by auto
  qed
next
  assume n: "raised r = None"
  with assms(1) have c: "raised (run_streams_collection env track_dim tbl today uid ov) = None"
    by simp
  show "committed (stream_conn (final r)) = foldl (\<lambda>X w. upsert_stream w X) tbl rows"
    using run_streams_table(1) [OF c] assms by simp
  show "processed (final r) = length rows"
    using run_streams_table(2) [OF c] assms by simp
  show "total_playcount (final r) = sum_list (map stream_playcount rows)"
    using run_streams_table(4) [OF c] assms by simp
qed

theorem zero_streams_alert_rule_witness:
  "ZeroStreamsAlert 99 \<in> set (alerts (run_streams_collection world_zero catalogue1 [] 100 ''user1'' None))
   \<and> processed (final (run_streams_collection world_zero catalogue1 [] 100 ''user1'' None)) = 1"
proof -
  let ?r = "run_streams_collection world_zero catalogue1 [] 100 ''user1'' None"
  note t = zero_streams_alert_rule [OF refl refl, of 99 world_zero catalogue1 "[]" 100 "''user1''" None]
  have c: "raised ?r = None \<and> (99::int) = day_of 100 None \<and> 0 < processed (final ?r)
            \<and> total_playcount (final ?r) = 0"
    by code_simp
  with t [THEN conjunct1] have a: "ZeroStreamsAlert 99 \<in> set (alerts ?r)" by (rule iffD2)
  from c have "raised ?r = None" by simp
  with t [THEN conjunct2] have "processed (final ?r)
      = length (stream_rows world_zero (day_of 100 None) ''user1'' (user_tracks ''user1'' catalogue1))"
    by blast
  also have "\<dots> = 1" by code_simp
  finally show ?thesis using a by simp
qed

text \<open>
  The claim as written fails when the view refresh raises after the rows have been
  committed: a row is stored, the total is zero, and the alert sent is the error alert.
\<close>

theorem zero_streams_alert_counterexample:
  "0 < processed (final (run_streams_collection world_zero_no_view catalogue1 [] 100 ''user1'' None))
   \<and> total_playcount (final (run_streams_collection world_zero_no_view catalogue1 [] 100 ''user1'' None)) = 0
   \<and> length (committed (stream_conn (final
        (run_streams_collection world_zero_no_view catalogue1 [] 100 ''user1'' None)))) = 1
   \<and> alerts (run_streams_collection world_zero_no_view catalogue1 [] 100 ''user1'' None)
        = [ErrorAlert (OtherException ''no such view'')]"
  by code_simp

section \<open>Failures of single tracks\<close>

lemma search_track_exhausted:
  assumes "\<forall>k<3. \<exists>e. call k = RaisesRequest e"
  shows "\<exists>e. search_track code call = Inl (RequestException e)"
proof -
  from assms have "\<exists>e. call 0 = RaisesRequest e" "\<exists>e. call 1 = RaisesRequest e"
    "\<exists>e. call 2 = RaisesRequest e" by simp_all
  then obtain e0 e1 e2 where
    "call 0 = RaisesRequest e0" "call 1 = RaisesRequest e1" "call 2 = RaisesRequest e2"
    by blast
  then show ?thesis
    by (simp add: search_track_def spotify_request_with_retries_def)
qed

lemma check_apple_exhausted:
  assumes "\<forall>k<3. \<exists>e. call k = RaisesRequest e"
  shows "check_apple_music_api artist title call = Inr False"
proof -
  from assms have "\<exists>e. call 0 = RaisesRequest e" "\<exists>e. call 1 = RaisesRequest e"
    "\<exists>e. call 2 = RaisesRequest e" by simp_all
  then obtain e0 e1 e2 where
    "call 0 = RaisesRequest e0" "call 1 = RaisesRequest e1" "call 2 = RaisesRequest e2"
    by blast
  then show ?thesis
    by (simp add: check_apple_music_api_def)
qed

lemma run_health_errors:
  "health_errors (health_final (run_catalogue_health_check env track_dim tbl today now uid)) = 0"
proof -
  have "\<And>trks st. health_errors (fst (health_loop env today now uid trks st)) = health_errors st"
  proof -
    fix trks st
    show "health_errors (fst (health_loop env today now uid trks st)) = health_errors st"
      by (induction trks arbitrary: st)
         (simp_all add: health_store_fields split: checked.splits)
  qed
  from this [of "user_tracks uid track_dim" "health_start tbl"] show ?thesis
    by (auto simp: run_catalogue_health_check_def Let_def health_start_def
        split: option.splits prod.splits)
qed

text \<open>
  Claim C6, as the code has it. A track whose search fails on all three attempts is
  counted as an error and the loop goes on with the state otherwise unchanged. A track
  whose metrics call fails on all three attempts gives no metric: nothing is stored and
  the error count stays as it is. A track whose two availability calls fail is recorded
  as absent from both catalogs, and the error count of the availability run is always
  zero. Whether the metrics run ends normally depends on the tokens, the connection and
  the view refresh only, never on the calls made for a track, and its error count is the
  number of tracks whose processing raised.
\<close>

theorem per_track_failures:
  "((\<forall>k<3. \<exists>e. search_calls env (track_isrc trk) k = RaisesRequest e) \<longrightarrow>
       is_failed (collect_track env trk)
       \<and> streams_step env day uid st trk = st\<lparr>errors := errors st + 1\<rparr>)
   \<and> (search_track (track_isrc trk) (search_calls env (track_isrc trk)) = Inr (Some (tid, aid, nm, ar))
        \<and> (\<forall>k<3. \<exists>e. album_calls env aid k = RaisesRequest e) \<longrightarrow>
       collect_track env trk = NoMetric \<and> streams_step env day uid st trk = st)
   \<and> (truthy (track_title trk) \<and> truthy (track_artist trk)
        \<and> (\<forall>k<3. \<exists>e. apple_calls env (text_of (track_artist trk)) (text_of (track_title trk)) k
                          = RaisesRequest e)
        \<and> spotify_search env (text_of (track_artist trk)) (text_of (track_title trk)) = Inl e2 \<longrightarrow>
       check_track env trk = Checked False False)
   \<and> (raised (run_streams_collection env track_dim tbl today uid ov) = None \<longleftrightarrow>
        (\<exists>tok. get_spotify_token env = Inr tok) \<and> (\<exists>w. sniff_tokens env = Inr w)
        \<and> db_conn env = None \<and> refresh_view env = None)
   \<and> (raised (run_streams_collection env track_dim tbl today uid ov) = None \<longrightarrow>
        errors (final (run_streams_collection env track_dim tbl today uid ov)) =
          length (filter (\<lambda>t. is_failed (collect_track env t)) (user_tracks uid track_dim)))
   \<and> health_errors (health_final (run_catalogue_health_check env track_dim htbl today now uid)) = 0"
proof (intro conjI impI)
  assume a: "\<forall>k<3. \<exists>e. search_calls env (track_isrc trk) k = RaisesRequest e"
  from search_track_exhausted [OF a] obtain e where
    s: "search_track (track_isrc trk) (search_calls env (track_isrc trk)) = Inl (RequestException e)"
    by blast
  then have c: "collect_track env trk = Failed (RequestException e)"
    by (simp add: collect_track_def)
  then show "is_failed (collect_track env trk)" by (simp add: is_failed_def)
  from c show "streams_step env day uid st trk = st\<lparr>errors := errors st + 1\<rparr>"
    by (simp add: streams_step_def)
next
  assume a: "search_track (track_isrc trk) (search_calls env (track_isrc trk)) = Inr (Some (tid, aid, nm, ar))
        \<and> (\<forall>k<3. \<exists>e. album_calls env aid k = RaisesRequest e)"
  then have "fetch_album (album_calls env aid) = Inr empty_json"
    by (simp add: fetch_album_exhausted)
  with a have c: "collect_track env trk = NoMetric"
    by (simp add: collect_track_def extract_empty)
  then show "collect_track env trk = NoMetric" .
  from c show "streams_step env day uid st trk = st" by (simp add: streams_step_def)
next
  assume a: "truthy (track_title trk) \<and> truthy (track_artist trk)
        \<and> (\<forall>k<3. \<exists>e. apple_calls env (text_of (track_artist trk)) (text_of (track_title trk)) k
                          = RaisesRequest e)
        \<and> spotify_search env (text_of (track_artist trk)) (text_of (track_title trk)) = Inl e2"
  then have "check_apple_music_api (text_of (track_artist trk)) (text_of (track_title trk))
               (apple_calls env (text_of (track_artist trk)) (text_of (track_title trk))) = Inr False"
    by (simp add: check_apple_exhausted)
  with a show "check_track env trk = Checked False False"
    by (simp add: check_track_def Let_def check_spotify_api_def)
next
  show "raised (run_streams_collection env track_dim tbl today uid ov) = None \<longleftrightarrow>
        (\<exists>tok. get_spotify_token env = Inr tok) \<and> (\<exists>w. sniff_tokens env = Inr w)
        \<and> db_conn env = None \<and> refresh_view env = None"
    by (rule run_streams_raised_iff)
next
  assume "raised (run_streams_collection env track_dim tbl today uid ov) = None"
  then show "errors (final (run_streams_collection env track_dim tbl today uid ov)) =
          length (filter (\<lambda>t. is_failed (collect_track env t)) (user_tracks uid track_dim))"
    by (rule run_streams_table(3))
next
  show "health_errors (health_final (run_catalogue_health_check env track_dim htbl today now uid)) = 0"
    by (rule run_health_errors)
qed

theorem per_track_failures_witness:
  "is_failed (collect_track world_search_down (song ''a''))
   \<and> errors (final (run_streams_collection world_search_down catalogue1 [] 100 ''user1'' None)) = 1
   \<and> raised (run_streams_collection world_search_down catalogue1 [] 100 ''user1'' None) = None
   \<and> check_track world_checks_down (song ''a'') = Checked False False
   \<and> collect_track world_metrics_down (song ''a'') = NoMetric"
proof -
  have m: "search_track (track_isrc (song ''a'')) (search_calls world_metrics_down (track_isrc (song ''a'')))
          = Inr (Some (''t1'', ''a1'', Some ''Song'', Some ''A & B''))
        \<and> (\<forall>k<3. \<exists>e. album_calls world_metrics_down ''a1'' k = RaisesRequest e)"
  proof
    show "search_track (track_isrc (song ''a'')) (search_calls world_metrics_down (track_isrc (song ''a'')))
          = Inr (Some (''t1'', ''a1'', Some ''Song'', Some ''A & B''))"
      by code_simp
    show "\<forall>k<3. \<exists>e. album_calls world_metrics_down ''a1'' k = RaisesRequest e"
      by (simp add: world_metrics_down_def world_ok_def)
  qed
  have quiet: "collect_track world_metrics_down (song ''a'') = NoMetric
      \<and> streams_step world_metrics_down 99 ''user1'' (streams_start []) (song ''a'') = streams_start []"
    using per_track_failures [where env = world_metrics_down and trk = "song ''a''"
        and tid = "''t1''" and aid = "''a1''" and nm = "Some ''Song''" and ar = "Some ''A & B''"
        and day = 99 and uid = "''user1''" and st = "streams_start []",
        THEN conjunct2, THEN conjunct1] m
    by (rule mp)
  have c: "truthy (track_title (song ''a'')) \<and> truthy (track_artist (song ''a''))
        \<and> (\<forall>k<3. \<exists>e. apple_calls world_checks_down (text_of (track_artist (song ''a'')))
                          (text_of (track_title (song ''a''))) k = RaisesRequest e)
        \<and> spotify_search world_checks_down (text_of (track_artist (song ''a'')))
              (text_of (track_title (song ''a''))) = Inl (OtherException ''client'')"
    by (simp add: world_checks_down_def world_ok_def song_def truthy_def)
  have down: "check_track world_checks_down (song ''a'') = Checked False False"
    using per_track_failures [where env = world_checks_down and trk = "song ''a''"
        and ?e2.0 = "OtherException ''client''", THEN conjunct2, THEN conjunct2, THEN conjunct1] c
    by (rule mp)
  have a: "\<forall>k<3. \<exists>e. search_calls world_search_down (track_isrc (song ''a'')) k = RaisesRequest e"
    by (simp add: world_search_down_def world_ok_def)
  note t = per_track_failures [where env = world_search_down and trk = "song ''a''"
      and track_dim = catalogue1 and tbl = "[]" and today = 100 and uid = "''user1''" and ov = None]
  from t a have f: "is_failed (collect_track world_search_down (song ''a''))" by blast
  have "(\<exists>tok. get_spotify_token world_search_down = Inr tok)
      \<and> (\<exists>w. sniff_tokens world_search_down = Inr w)
      \<and> db_conn world_search_down = None \<and> refresh_view world_search_down = None"
    by (simp add: world_search_down_def world_ok_def get_spotify_token_def
        spotify_request_with_retries_def)
  with t have n: "raised (run_streams_collection world_search_down catalogue1 [] 100 ''user1'' None) = None"
    by blast
  with t have "errors (final (run_streams_collection world_search_down catalogue1 [] 100 ''user1'' None)) =
          length (filter (\<lambda>t. is_failed (collect_track world_search_down t)) (user_tracks ''user1'' catalogue1))"
    by blast
  also have "\<dots> = 1" using f by (simp add: user_tracks_def catalogue1_def song_def)
  finally show ?thesis using f n down quiet by simp
qed

text \<open>
  The claim as written fails for the metrics call: it fails on all three attempts, the
  run ends normally, and its error count is zero.
\<close>

theorem metrics_failure_not_counted_counterexample:
  "result (spotify_request_with_retries SPOTIFY_PATHFINDER_URL (album_calls world_metrics_down ''a1''))
     = Inl (RequestException ''503'')
   \<and> attempts (spotify_request_with_retries SPOTIFY_PATHFINDER_URL (album_calls world_metrics_down ''a1'')) = 3
   \<and> collect_track world_metrics_down (song ''a'') = NoMetric
   \<and> errors (final (run_streams_collection world_metrics_down catalogue1 [] 100 ''user1'' None)) = 0
   \<and> raised (run_streams_collection world_metrics_down catalogue1 [] 100 ''user1'' None) = None"
  by code_simp

section \<open>Commits and durability\<close>

text \<open>
  Claim C3, as the code has it. The availability run commits after every tenth checked
  track and once more at its end: when an exception ends the loop after \<open>n\<close> checked
  tracks, the rows of the first \<open>n - n mod 10\<close> of them are in the committed table and
  the rest is rolled back; when the loop ends normally all rows are committed. The loop of
  the metrics run commits nothing: at every point of the loop the committed table is the
  one the run started with, and the rows are committed together after the loop.
\<close>

theorem commit_batches:
  "(db_conn env = None \<and> user_tracks uid track_dim = pre @ trk # rest
      \<and> (\<forall>t\<in>set pre. \<not> is_crashed (check_track env t)) \<and> check_track env trk = Crashed e
      \<and> n = length (health_rows env today uid pre) \<longrightarrow>
        health_raised (run_catalogue_health_check env track_dim htbl today now uid) = Some e
        \<and> committed (health_conn (health_final
             (run_catalogue_health_check env track_dim htbl today now uid))) =
            foldl (\<lambda>X r. upsert_health now r X) htbl
              (take (n - n mod 10) (health_rows env today uid pre)))
   \<and> (db_conn env = None \<and> (\<forall>t\<in>set (user_tracks uid track_dim). \<not> is_crashed (check_track env t)) \<longrightarrow>
        health_raised (run_catalogue_health_check env track_dim htbl today now uid) = None
        \<and> committed (health_conn (health_final
             (run_catalogue_health_check env track_dim htbl today now uid))) =
            foldl (\<lambda>X r. upsert_health now r X) htbl
              (health_rows env today uid (user_tracks uid track_dim)))
   \<and> committed (stream_conn (foldl (streams_step env day uid) (streams_start stbl) trks)) = stbl
   \<and> (raised (run_streams_collection env track_dim stbl today uid ov) = None \<longrightarrow>
        committed (stream_conn (final (run_streams_collection env track_dim stbl today uid ov))) =
          foldl (\<lambda>X r. upsert_stream r X) stbl
            (stream_rows env (day_of today ov) uid (user_tracks uid track_dim)))"
proof (intro conjI impI)
  assume a: "db_conn env = None \<and> user_tracks uid track_dim = pre @ trk # rest
      \<and> (\<forall>t\<in>set pre. \<not> is_crashed (check_track env t)) \<and> check_track env trk = Crashed e
      \<and> n = length (health_rows env today uid pre)"
  then have d: "db_conn env = None" and u: "user_tracks uid track_dim = pre @ trk # rest"
    and p: "\<forall>t\<in>set pre. \<not> is_crashed (check_track env t)" and c: "check_track env trk = Crashed e"
    and n: "n = length (health_rows env today uid pre)"
    by simp_all
  show "health_raised (run_catalogue_health_check env track_dim htbl today now uid) = Some e"
    by (rule run_health_crash(1) [OF d u p c])
  show "committed (health_conn (health_final
             (run_catalogue_health_check env track_dim htbl today now uid))) =
            foldl (\<lambda>X r. upsert_health now r X) htbl
              (take (n - n mod 10) (health_rows env today uid pre))"
    unfolding n by (rule run_health_crash(2) [OF d u p c])
next
  assume a: "db_conn env = None \<and> (\<forall>t\<in>set (user_tracks uid track_dim). \<not> is_crashed (check_track env t))"
  then have d: "db_conn env = None"
    and p: "\<forall>t\<in>set (user_tracks uid track_dim). \<not> is_crashed (check_track env t)"
    by simp_all
  show "health_raised (run_catalogue_health_check env track_dim htbl today now uid) = None"
    by (rule run_health_complete(1) [OF d p])
  show "committed (health_conn (health_final
             (run_catalogue_health_check env track_dim htbl today now uid))) =
            foldl (\<lambda>X r. upsert_health now r X) htbl
              (health_rows env today uid (user_tracks uid track_dim))"
    by (rule run_health_complete(2) [OF d p])
next
  show "committed (stream_conn (foldl (streams_step env day uid) (streams_start stbl) trks)) = stbl"
    by (simp add: streams_loop_committed streams_start_def connect_def)
next
  assume "raised (run_streams_collection env track_dim stbl today uid ov) = None"
  then show "committed (stream_conn (final (run_streams_collection env track_dim stbl today uid ov))) =
          foldl (\<lambda>X r. upsert_stream r X) stbl
            (stream_rows env (day_of today ov) uid (user_tracks uid track_dim))"
    by (rule run_streams_table(1))
qed

theorem commit_batches_witness:
  "health_raised (run_catalogue_health_check world_unreadable catalogue12 [] 100 5 ''user1'')
     = Some (OtherException ''invalid body'')
   \<and> length (committed (health_conn (health_final
        (run_catalogue_health_check world_unreadable catalogue12 [] 100 5 ''user1'')))) = 10
   \<and> health_raised (run_catalogue_health_check world_unreadable catalogue11 [] 100 5 ''user1'') = None
   \<and> length (committed (health_conn (health_final
        (run_catalogue_health_check world_unreadable catalogue11 [] 100 5 ''user1'')))) = 11"
proof -
  have full: "health_raised (run_catalogue_health_check world_unreadable catalogue11 [] 100 5 ''user1'') = None
   \<and> length (committed (health_conn (health_final
        (run_catalogue_health_check world_unreadable catalogue11 [] 100 5 ''user1'')))) = 11"
  proof -
    have whole: "db_conn world_unreadable = None
        \<and> (\<forall>t\<in>set (user_tracks ''user1'' catalogue11). \<not> is_crashed (check_track world_unreadable t))"
      by code_simp
    have "health_raised (run_catalogue_health_check world_unreadable catalogue11 [] 100 5 ''user1'') = None
          \<and> committed (health_conn (health_final
               (run_catalogue_health_check world_unreadable catalogue11 [] 100 5 ''user1''))) =
              foldl (\<lambda>X r. upsert_health 5 r X) []
                (health_rows world_unreadable 100 ''user1'' (user_tracks ''user1'' catalogue11))"
      using commit_batches [where env = world_unreadable and uid = "''user1''"
          and track_dim = catalogue11 and today = 100 and htbl = "[]" and now = 5,
          THEN conjunct2, THEN conjunct1] whole
      by (rule mp)
    moreover have "length (foldl (\<lambda>X r. upsert_health 5 r X) []
                (health_rows world_unreadable 100 ''user1'' (user_tracks ''user1'' catalogue11))) = 11"
      by code_simp
    ultimately show ?thesis by simp
  qed
  have a: "db_conn world_unreadable = None
      \<and> user_tracks ''user1'' catalogue12 = catalogue11 @ unreadable_song # []
      \<and> (\<forall>t\<in>set catalogue11. \<not> is_crashed (check_track world_unreadable t))
      \<and> check_track world_unreadable unreadable_song = Crashed (OtherException ''invalid body'')
      \<and> (11::nat) = length (health_rows world_unreadable 100 ''user1'' catalogue11)"
    by code_simp
  have "health_raised (run_catalogue_health_check world_unreadable catalogue12 [] 100 5 ''user1'')
          = Some (OtherException ''invalid body'')
        \<and> committed (health_conn (health_final
             (run_catalogue_health_check world_unreadable catalogue12 [] 100 5 ''user1''))) =
            foldl (\<lambda>X r. upsert_health 5 r X) []
              (take (11 - 11 mod 10) (health_rows world_unreadable 100 ''user1'' catalogue11))"
    using commit_batches [where env = world_unreadable and uid = "''user1''"
        and track_dim = catalogue12 and pre = catalogue11 and trk = unreadable_song
        and rest = "[]" and e = "OtherException ''invalid body''" and n = 11 and today = 100
        and htbl = "[]" and now = 5, THEN conjunct1] a
    by (rule mp)
  moreover have "length (foldl (\<lambda>X r. upsert_health 5 r X) []
              (take (11 - 11 mod 10) (health_rows world_unreadable 100 ''user1'' catalogue11))) = 10"
    by code_simp
  ultimately show ?thesis using full by simp
qed

text \<open>
  The claim as written fails for the metrics run: after ten processed tracks, a full
  batch, its loop has committed nothing.
\<close>

theorem metrics_run_no_batch_counterexample:
  "processed (foldl (streams_step world_ok 99 ''user1'') (streams_start []) (take 10 catalogue11)) = 10
   \<and> length (working (stream_conn
        (foldl (streams_step world_ok 99 ''user1'') (streams_start []) (take 10 catalogue11)))) = 10
   \<and> committed (stream_conn
        (foldl (streams_step world_ok 99 ''user1'') (streams_start []) (take 10 catalogue11))) = []"
  by code_simp

section \<open>Snapshot dates\<close>

lemma stream_conflict_key: "stream_key (stream_conflict r w) = stream_key r"
  by (simp add: stream_conflict_def stream_key_def)

lemma health_conflict_key: "health_key (health_conflict now r w) = health_key r"
  by (simp add: health_conflict_def health_key_def)

lemma stream_rows_date:
  "w \<in> set (stream_rows env day uid trks) \<Longrightarrow> stream_date w = day"
  by (auto simp: stream_rows_def track_rows_def new_stream_row_def split: collected.splits)

lemma health_rows_date:
  "w \<in> set (health_rows env day uid trks) \<Longrightarrow> check_date w = day"
  by (auto simp: health_rows_def check_rows_def new_health_row_def split: checked.splits)

lemma stream_table_dates:
  assumes "r \<in> set (foldl (\<lambda>X w. upsert_stream w X) tbl (stream_rows env day uid trks))"
  shows "stream_key r \<in> set (map stream_key tbl) \<or> stream_date r = day"
proof -
  from assms have "stream_key r \<in> set (map stream_key
      (foldl (\<lambda>X w. upsert stream_key stream_conflict w X) tbl (stream_rows env day uid trks)))"
    by (simp add: upsert_stream_def)
  then have "stream_key r \<in> set (map stream_key tbl)
      \<or> stream_key r \<in> set (map stream_key (stream_rows env day uid trks))"
    using foldl_upsert_keys [of stream_key stream_conflict tbl "stream_rows env day uid trks",
        OF stream_conflict_key] by blast
  then show ?thesis
  proof
    assume "stream_key r \<in> set (map stream_key tbl)"
    then show ?thesis by simp
  next
    assume "stream_key r \<in> set (map stream_key (stream_rows env day uid trks))"
    then obtain w where "w \<in> set (stream_rows env day uid trks)" "stream_key r = stream_key w"
      by auto
    then show ?thesis using stream_rows_date [of w env day uid trks] by (simp add: stream_key_def)
  qed
qed

lemma health_table_dates:
  assumes "r \<in> set (foldl (\<lambda>X w. upsert_health now w X) tbl (health_rows env day uid trks))"
  shows "health_key r \<in> set (map health_key tbl) \<or> check_date r = day"
proof -
  from assms have "health_key r \<in> set (map health_key
      (foldl (\<lambda>X w. upsert health_key (health_conflict now) w X) tbl (health_rows env day uid trks)))"
    by (simp add: upsert_health_def)
  then have "health_key r \<in> set (map health_key tbl)
      \<or> health_key r \<in> set (map health_key (health_rows env day uid trks))"
    using foldl_upsert_keys [of health_key "health_conflict now" tbl "health_rows env day uid trks",
        OF health_conflict_key] by blast
  then show ?thesis
  proof
    assume "health_key r \<in> set (map health_key tbl)"
    then show ?thesis by simp
  next
    assume "health_key r \<in> set (map health_key (health_rows env day uid trks))"
    then obtain w where "w \<in> set (health_rows env day uid trks)" "health_key r = health_key w"
      by auto
    then show ?thesis using health_rows_date [of w env day uid trks] by (simp add: health_key_def)
  qed
qed

text \<open>
  Claim C10. Without a date override every row that the metrics run writes carries the
  day before today, and every row of the table it leaves either has a key that was in
  the table before or carries that day. The availability run has no date parameter: every
  row it writes carries the current day, for all its arguments. So the rows written by a
  metrics run without override and by an availability check that runs the same day or
  later never carry the same date.
\<close>

theorem snapshot_dates:
  "(\<forall>w\<in>set (stream_rows env (day_of today None) uid trks). stream_date w = today - 1)
   \<and> (\<forall>w\<in>set (health_rows env check_day uid other_trks). check_date w = check_day)
   \<and> (raised (run_streams_collection env track_dim stbl today uid None) = None \<longrightarrow>
        (\<forall>r\<in>set (committed (stream_conn (final
               (run_streams_collection env track_dim stbl today uid None)))).
           stream_key r \<in> set (map stream_key stbl) \<or> stream_date r = today - 1))
   \<and> (health_raised (run_catalogue_health_check env track_dim htbl check_day now uid) = None \<longrightarrow>
        (\<forall>r\<in>set (committed (health_conn (health_final
               (run_catalogue_health_check env track_dim htbl check_day now uid)))).
           health_key r \<in> set (map health_key htbl) \<or> check_date r = check_day))
   \<and> (today \<le> check_day \<longrightarrow>
        (\<forall>a\<in>set (stream_rows env (day_of today None) uid trks).
         \<forall>b\<in>set (health_rows env check_day uid other_trks). stream_date a \<noteq> check_date b))"
proof (intro conjI impI ballI)
  fix w assume "w \<in> set (stream_rows env (day_of today None) uid trks)"
  then show "stream_date w = today - 1"
    using stream_rows_date [of w env "day_of today None" uid trks] by (simp add: day_of_def)
next
  fix w assume "w \<in> set (health_rows env check_day uid other_trks)"
  then show "check_date w = check_day" by (rule health_rows_date)
next
  fix r
  assume n: "raised (run_streams_collection env track_dim stbl today uid None) = None"
    and "r \<in> set (committed (stream_conn (final
               (run_streams_collection env track_dim stbl today uid None))))"
  then have "r \<in> set (foldl (\<lambda>X w. upsert_stream w X) stbl
      (stream_rows env (day_of today None) uid (user_tracks uid track_dim)))"
    by (simp add: run_streams_table(1))
  from stream_table_dates [OF this]
  show "stream_key r \<in> set (map stream_key stbl) \<or> stream_date r = today - 1"
    by (simp add: day_of_def)
next
  fix r
  assume n: "health_raised (run_catalogue_health_check env track_dim htbl check_day now uid) = None"
    and m: "r \<in> set (committed (health_conn (health_final
               (run_catalogue_health_check env track_dim htbl check_day now uid))))"
  from n have d: "db_conn env = None"
    and p: "\<forall>t\<in>set (user_tracks uid track_dim). \<not> is_crashed (check_track env t)"
    by (simp_all add: run_health_raised_iff)
  from m have "r \<in> set (foldl (\<lambda>X w. upsert_health now w X) htbl
      (health_rows env check_day uid (user_tracks uid track_dim)))"
    by (simp add: run_health_complete(2) [OF d p])
  from health_table_dates [OF this]
  show "health_key r \<in> set (map health_key htbl) \<or> check_date r = check_day" .
next
  fix a b
  assume "today \<le> check_day" "a \<in> set (stream_rows env (day_of today None) uid trks)"
    "b \<in> set (health_rows env check_day uid other_trks)"
  then show "stream_date a \<noteq> check_date b"
    using stream_rows_date [of a env "day_of today None" uid trks]
      health_rows_date [of b env check_day uid other_trks]
    by (simp add: day_of_def)
qed

theorem snapshot_dates_witness:
  "map stream_date (committed (stream_conn (final
      (run_streams_collection world_ok catalogue1 [] 100 ''user1'' None)))) = [99]
   \<and> map check_date (committed (health_conn (health_final
      (run_catalogue_health_check world_ok catalogue1 [] 100 5 ''user1'')))) = [100]"
proof -
  let ?s = "committed (stream_conn (final (run_streams_collection world_ok catalogue1 [] 100 ''user1'' None)))"
  let ?h = "committed (health_conn (health_final (run_catalogue_health_check world_ok catalogue1 [] 100 5 ''user1'')))"
  note t = snapshot_dates [where env = world_ok and track_dim = catalogue1 and stbl = "[]"
      and htbl = "[]" and today = 100 and check_day = 100 and uid = "''user1''" and now = 5]
  have rs: "raised (run_streams_collection world_ok catalogue1 [] 100 ''user1'' None) = None"
    by code_simp
  have rh: "health_raised (run_catalogue_health_check world_ok catalogue1 [] 100 5 ''user1'') = None"
    by code_simp
  obtain x where x: "?s = [x]"
  proof -
    have "length ?s = 1" by code_simp
    then show ?thesis using that by (cases ?s) auto
  qed
  obtain y where y: "?h = [y]"
  proof -
    have "length ?h = 1" by code_simp
    then show ?thesis using that by (cases ?h) auto
  qed
  from t rs have "\<forall>r\<in>set ?s. stream_key r \<in> set (map stream_key []) \<or> stream_date r = 100 - 1"
    by blast
  with x have sx: "stream_date x = 99" by simp
  from t rh have "\<forall>r\<in>set ?h. health_key r \<in> set (map health_key []) \<or> check_date r = 100"
    by blast
  with y have hy: "check_date y = 100" by simp
  from x y sx hy show ?thesis by simp
qed

section \<open>Re-running a synchronization\<close>

lemma foldl_upsert_existing:
  assumes K: "\<And>r w. key (oc r w) = key r" and "set (map key ws) \<subseteq> set (map key X)"
  shows "foldl (\<lambda>X r. upsert key oc r X) X ws =
           map (\<lambda>r. foldl (\<lambda>r w. if key r = key w then oc r w else r) r ws) X"
  using assms(2)
proof (induction ws arbitrary: X)
  case Nil
  then show ?case by simp
next
  case (Cons w ws)
  from Cons.prems have "key w \<in> set (map key X)" by simp
  then have "list_ex (\<lambda>r. key r = key w) X" by (auto simp: list_ex_iff)
  then have u: "upsert key oc w X = map (\<lambda>r. if key r = key w then oc r w else r) X"
    by (simp add: upsert_def)
  have "map key (upsert key oc w X) = map key X"
    using \<open>key w \<in> set (map key X)\<close> by (simp add: upsert_key_map [of key oc, OF K])
  with Cons.prems have "set (map key ws) \<subseteq> set (map key (upsert key oc w X))" by simp
  from Cons.IH [OF this] show ?case by (simp add: u comp_def)
qed

lemma foldl_conflict_key:
  assumes K: "\<And>r w. key (oc r w) = key r"
  shows "key (foldl (\<lambda>r w. if key r = key w then oc r w else r) r ws) = key r"
  by (induction ws arbitrary: r) (simp_all add: K)

lemma foldl_conflict_last:
  assumes K: "\<And>r w. key (oc r w) = key r" and L: "\<And>r w1 w2. oc (oc r w1) w2 = oc r w2"
  shows "foldl (\<lambda>r w. if key r = key w then oc r w else r) r ws =
           (case find (\<lambda>w. key w = key r) (rev ws) of None \<Rightarrow> r | Some w \<Rightarrow> oc r w)"
proof (induction ws rule: rev_induct)
  case Nil
  then show ?case by simp
next
  case (snoc x ws)
  let ?r = "foldl (\<lambda>r w. if key r = key w then oc r w else r) r ws"
  have k: "key ?r = key r" by (rule foldl_conflict_key [of key oc, OF K])
  show ?case
  proof (cases "key x = key r")
    case True
    then have "foldl (\<lambda>r w. if key r = key w then oc r w else r) r (ws @ [x]) = oc ?r x"
      using k by simp
    also have "\<dots> = oc r x"
      unfolding snoc.IH by (simp add: L split: option.splits)
    finally show ?thesis using True by simp
  next
    case False
    then have "foldl (\<lambda>r w. if key r = key w then oc r w else r) r (ws @ [x]) = ?r"
      using k by auto
    with False snoc.IH show ?thesis by simp
  qed
qed

lemma stream_conflict_val: "stream_playcount (stream_conflict r w) = stream_playcount w"
  by (simp add: stream_conflict_def)

lemma health_conflict_val:
  "(apple_music_status (health_conflict now r w), spotify_status (health_conflict now r w))
     = (apple_music_status w, spotify_status w)"
  by (simp add: health_conflict_def)

lemma stream_conflict_twice:
  "stream_conflict (stream_conflict r w1) w2 = stream_conflict r w2"
  by (simp add: stream_conflict_def)

lemma health_conflict_twice:
  "health_conflict now (health_conflict now r w1) w2 = health_conflict now r w2"
  by (simp add: health_conflict_def)

lemma find_SomeD: "find P xs = Some x \<Longrightarrow> x \<in> set xs \<and> P x"
  by (induction xs) (auto split: if_splits)

lemma stream_conflict_same:
  "stream_playcount r = stream_playcount w \<Longrightarrow> stream_conflict r w = r"
  by (simp add: stream_conflict_def)

lemma health_conflict_same:
  "apple_music_status r = apple_music_status w \<Longrightarrow> spotify_status r = spotify_status w \<Longrightarrow>
     health_conflict later r w = r\<lparr>updated_at := Some later\<rparr>"
  by (simp add: health_conflict_def)

lemma stream_rerun_same:
  "foldl (\<lambda>X r. upsert_stream r X) (foldl (\<lambda>X r. upsert_stream r X) tbl ws) ws
     = foldl (\<lambda>X r. upsert_stream r X) tbl ws"
proof -
  let ?T = "foldl (\<lambda>X r. upsert stream_key stream_conflict r X) tbl ws"
  note last = foldl_conflict_last [of stream_key stream_conflict,
      OF stream_conflict_key stream_conflict_twice]
  have sub: "set (map stream_key ws) \<subseteq> set (map stream_key ?T)"
    using foldl_upsert_keys [of stream_key stream_conflict tbl ws, OF stream_conflict_key] by blast
  have stable: "foldl (\<lambda>r w. if stream_key r = stream_key w then stream_conflict r w else r) r ws = r"
    if "r \<in> set ?T" for r
  proof (cases "find (\<lambda>w. stream_key w = stream_key r) (rev ws)")
    case None
    then show ?thesis by (simp add: last)
  next
    case (Some w)
    from foldl_upsert_last_val [of stream_key stream_conflict stream_playcount r tbl ws w,
        OF stream_conflict_key stream_conflict_val that Some]
    have "stream_playcount r = stream_playcount w" .
    then have "stream_conflict r w = r" by (rule stream_conflict_same)
    with Some show ?thesis by (simp add: last)
  qed
  have "foldl (\<lambda>X r. upsert stream_key stream_conflict r X) ?T ws =
      map (\<lambda>r. foldl (\<lambda>r w. if stream_key r = stream_key w then stream_conflict r w else r) r ws) ?T"
    by (rule foldl_upsert_existing [of stream_key stream_conflict, OF stream_conflict_key sub])
  also have "\<dots> = ?T" using stable by (simp add: map_idI)
  finally show ?thesis by (simp add: upsert_stream_def)
qed

lemma health_rerun_same:
  "foldl (\<lambda>X r. upsert_health later r X) (foldl (\<lambda>X r. upsert_health now r X) tbl ws) ws
     = map (\<lambda>r. if health_key r \<in> set (map health_key ws) then r\<lparr>updated_at := Some later\<rparr> else r)
         (foldl (\<lambda>X r. upsert_health now r X) tbl ws)"
proof -
  let ?T = "foldl (\<lambda>X r. upsert health_key (health_conflict now) r X) tbl ws"
  note last = foldl_conflict_last [of health_key "health_conflict later",
      OF health_conflict_key health_conflict_twice]
  have sub: "set (map health_key ws) \<subseteq> set (map health_key ?T)"
    using foldl_upsert_keys [of health_key "health_conflict now" tbl ws, OF health_conflict_key]
    by blast
  have stable: "foldl (\<lambda>r w. if health_key r = health_key w then health_conflict later r w else r) r ws
      = (if health_key r \<in> set (map health_key ws) then r\<lparr>updated_at := Some later\<rparr> else r)"
    if "r \<in> set ?T" for r
  proof (cases "find (\<lambda>w. health_key w = health_key r) (rev ws)")
    case None
    then have "health_key r \<notin> set (map health_key ws)"
      by (auto simp: find_None_iff)
    with None show ?thesis by (simp add: last)
  next
    case (Some w)
    from find_SomeD [OF Some] have "w \<in> set ws" "health_key w = health_key r" by simp_all
    then have m: "health_key r \<in> set (map health_key ws)" by (metis image_eqI set_map)
    from foldl_upsert_last_val [of health_key "health_conflict now"
        "\<lambda>r. (apple_music_status r, spotify_status r)" r tbl ws w,
        OF health_conflict_key health_conflict_val that Some]
    have "apple_music_status r = apple_music_status w" "spotify_status r = spotify_status w"
      by simp_all
    then have "health_conflict later r w = r\<lparr>updated_at := Some later\<rparr>"
      by (rule health_conflict_same)
    with Some m show ?thesis by (simp add: last)
  qed
  have "foldl (\<lambda>X r. upsert health_key (health_conflict later) r X) ?T ws =
      map (\<lambda>r. foldl (\<lambda>r w. if health_key r = health_key w then health_conflict later r w else r) r ws) ?T"
    by (rule foldl_upsert_existing [of health_key "health_conflict later", OF health_conflict_key sub])
  also have "\<dots> = map (\<lambda>r. if health_key r \<in> set (map health_key ws)
                              then r\<lparr>updated_at := Some later\<rparr> else r) ?T"
    by (rule map_cong [OF refl stable])
  finally show ?thesis by (simp add: upsert_health_def)
qed

lemma track_rows_member:
  "collect_track env t = Metric pc \<Longrightarrow> t \<in> set trks \<Longrightarrow>
     new_stream_row day uid t pc \<in> set (stream_rows env day uid trks)"
  by (auto simp: stream_rows_def track_rows_def intro!: bexI [of _ t])

lemma check_rows_member:
  "check_track env t = Checked a s \<Longrightarrow> t \<in> set trks \<Longrightarrow>
     new_health_row day uid t a s \<in> set (health_rows env day uid trks)"
  by (auto simp: health_rows_def check_rows_def intro!: bexI [of _ t])

lemma stream_rerun_one_row:
  assumes "distinct (map stream_key tbl)"
  shows "distinct (map stream_key (foldl (\<lambda>X r. upsert_stream r X) tbl ws))"
    and "w \<in> set ws \<Longrightarrow>
           \<exists>r. filter (\<lambda>r. stream_key r = stream_key w) (foldl (\<lambda>X r. upsert_stream r X) tbl ws) = [r]"
    and "r \<in> set (foldl (\<lambda>X r. upsert_stream r X) tbl ws) \<Longrightarrow>
           find (\<lambda>w. stream_key w = stream_key r) (rev ws) = Some w \<Longrightarrow>
           stream_playcount r = stream_playcount w"
proof -
  show d: "distinct (map stream_key (foldl (\<lambda>X r. upsert_stream r X) tbl ws))"
    unfolding upsert_stream_def
    by (rule foldl_upsert_distinct [of stream_key stream_conflict, OF stream_conflict_key assms])
  show "\<exists>r. filter (\<lambda>r. stream_key r = stream_key w) (foldl (\<lambda>X r. upsert_stream r X) tbl ws) = [r]"
    if "w \<in> set ws"
  proof -
    have "stream_key w \<in> set (map stream_key (foldl (\<lambda>X r. upsert_stream r X) tbl ws))"
      unfolding upsert_stream_def
      using foldl_upsert_keys [of stream_key stream_conflict tbl ws, OF stream_conflict_key] that
      by auto
    with d show ?thesis by (rule distinct_key_single)
  qed
  show "stream_playcount r = stream_playcount w"
    if "r \<in> set (foldl (\<lambda>X r. upsert_stream r X) tbl ws)"
      "find (\<lambda>w. stream_key w = stream_key r) (rev ws) = Some w"
    using foldl_upsert_last_val [of stream_key stream_conflict stream_playcount r tbl ws w,
        OF stream_conflict_key stream_conflict_val] that
    by (simp add: upsert_stream_def)
qed

lemma health_rerun_one_row:
  assumes "distinct (map health_key tbl)"
  shows "distinct (map health_key (foldl (\<lambda>X r. upsert_health now r X) tbl ws))"
    and "w \<in> set ws \<Longrightarrow>
           \<exists>r. filter (\<lambda>r. health_key r = health_key w) (foldl (\<lambda>X r. upsert_health now r X) tbl ws) = [r]"
    and "r \<in> set (foldl (\<lambda>X r. upsert_health now r X) tbl ws) \<Longrightarrow>
           find (\<lambda>w. health_key w = health_key r) (rev ws) = Some w \<Longrightarrow>
           apple_music_status r = apple_music_status w \<and> spotify_status r = spotify_status w"
proof -
  show d: "distinct (map health_key (foldl (\<lambda>X r. upsert_health now r X) tbl ws))"
    unfolding upsert_health_def
    by (rule foldl_upsert_distinct [of health_key "health_conflict now", OF health_conflict_key assms])
  show "\<exists>r. filter (\<lambda>r. health_key r = health_key w) (foldl (\<lambda>X r. upsert_health now r X) tbl ws) = [r]"
    if "w \<in> set ws"
  proof -
    have "health_key w \<in> set (map health_key (foldl (\<lambda>X r. upsert_health now r X) tbl ws))"
      unfolding upsert_health_def
      using foldl_upsert_keys [of health_key "health_conflict now" tbl ws, OF health_conflict_key] that
      by auto
    with d show ?thesis by (rule distinct_key_single)
  qed
  show "apple_music_status r = apple_music_status w \<and> spotify_status r = spotify_status w"
    if "r \<in> set (foldl (\<lambda>X r. upsert_health now r X) tbl ws)"
      "find (\<lambda>w. health_key w = health_key r) (rev ws) = Some w"
    using foldl_upsert_last_val [of health_key "health_conflict now"
        "\<lambda>r. (apple_music_status r, spotify_status r)" r tbl ws w,
        OF health_conflict_key health_conflict_val] that
    by (simp add: upsert_health_def)
qed

text \<open>
  Claim C1. Take tables whose keys are unique, a synchronization that ends normally, and
  a second one for the same user and date on the tables the first one left. After the
  second run no key occurs twice in either table. Every track for which the second
  metrics run extracted a counter has exactly one row under its key (spotify, track,
  date), and every track the second availability run checked has exactly one row under
  its key (date, track). A row whose key the second run wrote holds the values of the
  second run's last write to that key. When the responses of the second run are those of
  the first, the metrics table is left exactly as the first run left it, and the
  availability table differs only in the update time of the rewritten rows.
\<close>

theorem rerun_one_row_per_key:
  assumes "distinct (map stream_key stbl)" and "distinct (map health_key htbl)"
    and "raised (run_streams_collection env track_dim stbl today uid ov) = None"
    and "s_first = committed (stream_conn (final
           (run_streams_collection env track_dim stbl today uid ov)))"
    and "raised (run_streams_collection env_again track_dim s_first today uid ov) = None"
    and "s_after = committed (stream_conn (final
           (run_streams_collection env_again track_dim s_first today uid ov)))"
    and "s_rows = stream_rows env_again (day_of today ov) uid (user_tracks uid track_dim)"
    and "health_raised (run_catalogue_health_check env track_dim htbl today now uid) = None"
    and "h_first = committed (health_conn (health_final
           (run_catalogue_health_check env track_dim htbl today now uid)))"
    and "health_raised (run_catalogue_health_check env_again track_dim h_first today later uid) = None"
    and "h_after = committed (health_conn (health_final
           (run_catalogue_health_check env_again track_dim h_first today later uid)))"
    and "h_rows = health_rows env_again today uid (user_tracks uid track_dim)"
  shows "distinct (map stream_key s_after)
       \<and> (\<forall>t\<in>set (user_tracks uid track_dim). \<forall>pc. collect_track env_again t = Metric pc \<longrightarrow>
            (\<exists>r. filter (\<lambda>r. stream_key r = (''spotify'', track_uid t, day_of today ov)) s_after = [r]))
       \<and> (\<forall>r\<in>set s_after. \<forall>w. find (\<lambda>w. stream_key w = stream_key r) (rev s_rows) = Some w \<longrightarrow>
            stream_playcount r = stream_playcount w)
       \<and> (env_again = env \<longrightarrow> s_after = s_first)
       \<and> distinct (map health_key h_after)
       \<and> (\<forall>t\<in>set (user_tracks uid track_dim). \<forall>a s. check_track env_again t = Checked a s \<longrightarrow>
            (\<exists>r. filter (\<lambda>r. health_key r = (today, track_uid t)) h_after = [r]))
       \<and> (\<forall>r\<in>set h_after. \<forall>w. find (\<lambda>w. health_key w = health_key r) (rev h_rows) = Some w \<longrightarrow>
            apple_music_status r = apple_music_status w \<and> spotify_status r = spotify_status w)
       \<and> (env_again = env \<longrightarrow>
            h_after = map (\<lambda>r. if health_key r \<in> set (map health_key h_rows)
                                then r\<lparr>updated_at := Some later\<rparr> else r) h_first)"
proof -
  let ?day = "day_of today ov"
  let ?trks = "user_tracks uid track_dim"
  have sf: "s_first = foldl (\<lambda>X r. upsert_stream r X) stbl (stream_rows env ?day uid ?trks)"
    using assms(3,4) by (simp add: run_streams_table(1))
  have sa: "s_after = foldl (\<lambda>X r. upsert_stream r X) s_first s_rows"
    using assms(5,6,7) by (simp add: run_streams_table(1))
  have d1: "distinct (map stream_key s_first)"
    unfolding sf by (rule stream_rerun_one_row(1) [OF assms(1)])
  from assms(8) have hc: "db_conn env = None"
    "\<forall>t\<in>set ?trks. \<not> is_crashed (check_track env t)"
    by (simp_all add: run_health_raised_iff)
  from assms(10) have hc2: "db_conn env_again = None"
    "\<forall>t\<in>set ?trks. \<not> is_crashed (check_track env_again t)"
    by (simp_all add: run_health_raised_iff)
  have hf: "h_first = foldl (\<lambda>X r. upsert_health now r X) htbl (health_rows env today uid ?trks)"
    using assms(9) by (simp add: run_health_complete(2) [OF hc])
  have ha: "h_after = foldl (\<lambda>X r. upsert_health later r X) h_first h_rows"
    using assms(11,12) by (simp add: run_health_complete(2) [OF hc2])
  have d2: "distinct (map health_key h_first)"
    unfolding hf by (rule health_rerun_one_row(1) [OF assms(2)])
  show ?thesis
  proof (intro conjI ballI allI impI)
    show "distinct (map stream_key s_after)"
      unfolding sa by (rule stream_rerun_one_row(1) [OF d1])
  next
    fix t pc
    assume t: "t \<in> set ?trks" and m: "collect_track env_again t = Metric pc"
    have "new_stream_row ?day uid t pc \<in> set s_rows"
      unfolding assms(7) by (rule track_rows_member [OF m t])
    from stream_rerun_one_row(2) [OF d1 this]
    show "\<exists>r. filter (\<lambda>r. stream_key r = (''spotify'', track_uid t, ?day)) s_after = [r]"
      by (simp add: sa stream_key_def new_stream_row_def)
  next
    fix r w
    assume "r \<in> set s_after" "find (\<lambda>w. stream_key w = stream_key r) (rev s_rows) = Some w"
    then show "stream_playcount r = stream_playcount w"
      unfolding sa by (rule stream_rerun_one_row(3) [OF d1])
  next
    assume "env_again = env"
    then show "s_after = s_first"
      unfolding sa assms(7) sf by (simp add: stream_rerun_same)
  next
    show "distinct (map health_key h_after)"
      unfolding ha by (rule health_rerun_one_row(1) [OF d2])
  next
    fix t a s
    assume t: "t \<in> set ?trks" and m: "check_track env_again t = Checked a s"
    have "new_health_row today uid t a s \<in> set h_rows"
      unfolding assms(12) by (rule check_rows_member [OF m t])
    from health_rerun_one_row(2) [OF d2 this]
    show "\<exists>r. filter (\<lambda>r. health_key r = (today, track_uid t)) h_after = [r]"
      by (simp add: ha health_key_def new_health_row_def)
  next
    fix r w
    assume "r \<in> set h_after" "find (\<lambda>w. health_key w = health_key r) (rev h_rows) = Some w"
    then show "apple_music_status r = apple_music_status w"
      unfolding ha using health_rerun_one_row(3) [OF d2] by blast
  next
    fix r w
    assume "r \<in> set h_after" "find (\<lambda>w. health_key w = health_key r) (rev h_rows) = Some w"
    then show "spotify_status r = spotify_status w"
      unfolding ha using health_rerun_one_row(3) [OF d2] by blast
  next
    assume "env_again = env"
    then show "h_after = map (\<lambda>r. if health_key r \<in> set (map health_key h_rows)
                                then r\<lparr>updated_at := Some later\<rparr> else r) h_first"
      unfolding ha assms(12) hf by (simp add: health_rerun_same)
  qed
qed

theorem rerun_one_row_per_key_witness:
  "committed (stream_conn (final (run_streams_collection world_ok catalogue1
      (committed (stream_conn (final (run_streams_collection world_ok catalogue1 [] 100 ''user1'' None))))
      100 ''user1'' None)))
     = committed (stream_conn (final (run_streams_collection world_ok catalogue1 [] 100 ''user1'' None)))
   \<and> distinct (map health_key (committed (health_conn (health_final
        (run_catalogue_health_check world_ok catalogue1
          (committed (health_conn (health_final
             (run_catalogue_health_check world_ok catalogue1 [] 100 5 ''user1''))))
          100 6 ''user1'')))))"
proof -
  have d: "distinct (map stream_key [])" "distinct (map health_key [])" by simp_all
  have a: "raised (run_streams_collection world_ok catalogue1 [] 100 ''user1'' None) = None"
    by code_simp
  have b: "raised (run_streams_collection world_ok catalogue1
      (committed (stream_conn (final (run_streams_collection world_ok catalogue1 [] 100 ''user1'' None))))
      100 ''user1'' None) = None"
    by code_simp
  have c: "health_raised (run_catalogue_health_check world_ok catalogue1 [] 100 5 ''user1'') = None"
    by code_simp
  have e: "health_raised (run_catalogue_health_check world_ok catalogue1
          (committed (health_conn (health_final
             (run_catalogue_health_check world_ok catalogue1 [] 100 5 ''user1''))))
          100 6 ''user1'') = None"
    by code_simp
  note t = rerun_one_row_per_key [OF d a refl b refl refl c refl e refl refl]
  from t have "distinct (map health_key (committed (health_conn (health_final
        (run_catalogue_health_check world_ok catalogue1
          (committed (health_conn (health_final
             (run_catalogue_health_check world_ok catalogue1 [] 100 5 ''user1''))))
          100 6 ''user1'')))))"
    by blast
  moreover from t have "committed (stream_conn (final (run_streams_collection world_ok catalogue1
      (committed (stream_conn (final (run_streams_collection world_ok catalogue1 [] 100 ''user1'' None))))
      100 ''user1'' None)))
     = committed (stream_conn (final (run_streams_collection world_ok catalogue1 [] 100 ''user1'' None)))"
    by blast
  ultimately show ?thesis by simp
qed

end
